theory Spec2Isabelle
  imports Main "HOL-Library.Word"
begin

section \<open>The EventLoop of logdevice/common/EventLoop.cpp\<close>

text \<open>
  An EventLoop owns one OS thread, a libevent base (EvBase), a task queue bound to that
  base, and a self-rearming timer event that measures how late the loop serves a
  zero-delay timer. The development below embeds the functions of EventLoop.cpp as
  functions on an explicit state: the members of the object, the two thread-local
  variables the file touches (\<open>err\<close> and \<open>thisThreadLoop\<close>), and a log of the
  calls made to the collaborators that live outside the file (libevent, the task queue,
  the thread, the semaphore, the logger), each tagged with the thread that makes it.
\<close>

subsection \<open>Values\<close>

text \<open>The two threads of a construction: the one that calls the constructor, and the
  one the constructor spawns (the thread of the loop).\<close>

datatype thread = Caller | LoopThread

text \<open>\<open>EvBase::Status\<close>: the switch of createEventBase names three enumerators;
  \<open>EvBase_OTHER\<close> stands for every enumerator that reaches its \<open>default\<close> label.\<close>

datatype EvBase_Status = EvBase_OK | EvBase_NO_MEM | EvBase_INVALID_PRIORITY | EvBase_OTHER

text \<open>\<open>Status\<close> (logdevice/include/Err.h): the enumerators EventLoop.cpp names, and
  three of the many others, which a stale \<open>err\<close> may hold.\<close>

datatype Status = OK | NOMEM | SYSLIMIT | INTERNAL | TIMEDOUT | SHUTDOWN | UNKNOWN

text \<open>The timeouts handed to evtimer_add: \<open>getZeroTimeout()\<close> and
  \<open>getCommonTimeout(n s)\<close>.\<close>

datatype timeout = ZeroTimeout | CommonTimeout nat

text \<open>A \<open>folly::Function<void()>\<close>: the closure init posts, or a caller's closure,
  opaque but for its identity.\<close>

datatype func = Bootstrap | Closure nat

text \<open>\<open>int8_t\<close> priorities of folly::Executor: LO_PRI is SCHAR_MIN, HI_PRI is SCHAR_MAX.\<close>

type_synonym priority = "8 word"

definition LO_PRI :: priority where
  "LO_PRI = - 128"

definition MID_PRI :: priority where
  "MID_PRI = 0"

definition HI_PRI :: priority where
  "HI_PRI = 127"

text \<open>An \<open>EvBase\<close> and an \<open>Event\<close> that exist; a pointer to this EventLoop.\<close>

datatype EvBase = The_EvBase

datatype Event = The_Event

datatype loop_ref = This

text \<open>The calls the file makes to its collaborators, and the implicit actions of the
  language (a thread function returning, an exception leaving the constructor, the
  members being destroyed after a destructor's body).\<close>

datatype action =
    Syscall_gettid
  | ThreadID_set nat string
  | EvBase_init
  | Ld_error string
  | TaskQueue_create EvBase nat "nat list"
  | TaskQueue_setCloseEventLoopOnShutdown
  | TaskQueue_add func
  | TaskQueue_addWithPriority func priority
  | TaskQueue_shutdown
  | EvBase_loopOnce
  | EvBase_loop
  | Set_thisThreadLoop
  | Event_create
  | Event_reset
  | Evtimer_add timeout
  | Thread_spawn
  | Thread_exit
  | Thread_join
  | Semaphore_post
  | Semaphore_wait
  | Throw_ConstructorFailed
  | Call_closure nat
  | Members_destroyed

subsection \<open>The task queue\<close>

text \<open>
  EventLoopTaskQueue is declared in EventLoopTaskQueue.h, which is not among the
  sources. Its state is kept as the pending items in arrival order, each with the
  priority it was submitted at; the bucket of a priority is the subsequence of the
  items submitted at it, so each bucket is first-in first-out.
\<close>

record EventLoopTaskQueue =
  event_base :: EvBase
  items :: "(priority \<times> func) list"
  capacity :: nat
  requests_per_iteration :: "nat list"
  close_event_loop_on_shutdown :: bool
  shutdown_signaled :: bool

definition bucket :: "priority \<Rightarrow> EventLoopTaskQueue \<Rightarrow> func list" where
  "bucket p q = map snd (filter (\<lambda>e. fst e = p) (items q))"

text \<open>Modelled from the spec: the constructor of EventLoopTaskQueue (the class is not
  among the sources), which is given the base, the capacity and the drain limits: "a
  small fixed number of priority buckets ...; a combined capacity bound across all
  buckets; a per-bucket drain limit ...; a shutdown flag".\<close>

definition TaskQueue_new :: "EvBase \<Rightarrow> nat \<Rightarrow> nat list \<Rightarrow> EventLoopTaskQueue" where
  "TaskQueue_new b cap rpi =
     \<lparr>event_base = b, items = [], capacity = cap, requests_per_iteration = rpi,
      close_event_loop_on_shutdown = False, shutdown_signaled = False\<rparr>"

text \<open>Modelled from the spec: when EventLoopTaskQueue (not among the sources) takes a
  submission. It "reports an overload condition rather than blocking when combined
  bucket occupancy exceeds capacity", and "after shutdown, new submissions are
  rejected". A submission is accepted when the queue has not been shut down and holds
  fewer items than its capacity, so that of capacity + 1 submissions with no drain
  between them exactly the last is refused ("submitting capacity+1 items without
  intervening drains causes exactly the (capacity+1)-th submission to report
  overload").\<close>

definition tq_accepts :: "EventLoopTaskQueue \<Rightarrow> bool" where
  "tq_accepts q = (\<not> shutdown_signaled q \<and> length (items q) < capacity q)"

text \<open>Modelled from the spec: EventLoopTaskQueue::addWithPriority (not among the
  sources), which "appends to the bucket for `priority`" a submission that is accepted,
  and leaves the queue as it is otherwise. The result is the "accepted/overload-rejected
  signal". The wake-up of the reactor is an effect on the base, which has no state
  here.\<close>

definition tq_addWithPriority ::
  "func \<Rightarrow> priority \<Rightarrow> EventLoopTaskQueue \<Rightarrow> bool \<times> EventLoopTaskQueue" where
  "tq_addWithPriority f p q =
     (if tq_accepts q then (True, q\<lparr>items := items q @ [(p, f)]\<rparr>) else (False, q))"

text \<open>Modelled from the spec: EventLoopTaskQueue::add (not among the sources), the
  submission without a priority that init uses to "enqueue one bootstrap task"; it is
  taken to use the lane EventLoop::add uses, and to be accepted or refused like any
  other submission.\<close>

definition tq_add :: "func \<Rightarrow> EventLoopTaskQueue \<Rightarrow> bool \<times> EventLoopTaskQueue" where
  "tq_add f q = tq_addWithPriority f LO_PRI q"

text \<open>Modelled from the spec: EventLoopTaskQueue::setCloseEventLoopOnShutdown (not
  among the sources), "configures the queue so shutdown also instructs the bound
  ReactorPrimitive to stop looping".\<close>

definition tq_setCloseEventLoopOnShutdown :: "EventLoopTaskQueue \<Rightarrow> EventLoopTaskQueue" where
  "tq_setCloseEventLoopOnShutdown q = q\<lparr>close_event_loop_on_shutdown := True\<rparr>"

text \<open>Modelled from the spec: EventLoopTaskQueue::shutdown (not among the sources),
  "idempotent; sets the shutdown flag".\<close>

definition tq_shutdown :: "EventLoopTaskQueue \<Rightarrow> EventLoopTaskQueue" where
  "tq_shutdown q = q\<lparr>shutdown_signaled := True\<rparr>"

subsection \<open>The state\<close>

text \<open>
  The members of the class that EventLoop.cpp reads or writes, under their names without
  the trailing underscore (\<open>base\<close> is \<open>base_\<close>, and so on; \<open>thisThreadLoop\<close> below is
  \<open>thisThreadLoop_\<close>). A \<open>unique_ptr\<close> is an option. \<open>thread_joinable\<close> is
  \<open>thread_.joinable()\<close>. Time points of the steady clock are counts of nanoseconds in
  an \<open>int64_t\<close>, kept as integers; \<open>delay_us\<close> is a \<open>uint64_t\<close>, whose addition wraps
  around.
\<close>

record EventLoop =
  thread_type :: nat
  thread_name :: string
  priority_queues_enabled :: bool
  tid :: int
  base :: "EvBase option"
  task_queue :: "EventLoopTaskQueue option"
  scheduled_event :: "Event option"
  scheduled_event_start_time :: int
  delay_us :: "64 word"
  thread_joinable :: bool
  num_references :: nat

text \<open>The object together with the thread-local variables \<open>err\<close> and
  \<open>thisThreadLoop\<close> (one value per thread) and the log of calls.\<close>

record world = EventLoop +
  err :: "thread \<Rightarrow> Status"
  thisThreadLoop :: "thread \<Rightarrow> loop_ref option"
  trace :: "(thread \<times> action) list"

definition act :: "thread \<Rightarrow> action \<Rightarrow> world \<Rightarrow> world" where
  "act t a s = s\<lparr>trace := trace s @ [(t, a)]\<rparr>"

text \<open>What the environment decides: the thread id the kernel reports, what
  \<open>EvBase::init\<close> returns, whether the single pass of \<open>loopOnce\<close> hands the queued
  task to the thread, whether the Event of the bootstrap task comes into being, and
  with which status \<open>EvBase::loop\<close> returns, if it ever does.\<close>

record env =
  gettid :: int
  evbase_init :: EvBase_Status
  loop_once_drains :: bool
  event_created :: bool
  loop_exit :: "EvBase_Status option"

subsection \<open>Submitting work: add and addWithPriority\<close>

text \<open>Both dereference \<open>task_queue\<close>; on a null pointer there is no behaviour to
  describe, and the result is \<open>None\<close>. The thread is the one that submits. Both
  return \<open>void\<close>: what the queue answers is dropped, and only the queue it leaves is
  kept.\<close>

definition addWithPriority :: "thread \<Rightarrow> func \<Rightarrow> priority \<Rightarrow> world \<Rightarrow> world option" where
  "addWithPriority t f p s =
     (case task_queue s of
        None \<Rightarrow> None
      | Some q \<Rightarrow>
          (let p' = (if priority_queues_enabled s then p else HI_PRI)
           in Some (act t (TaskQueue_addWithPriority f p')
                     (s\<lparr>task_queue := Some (snd (tq_addWithPriority f p' q))\<rparr>))))"

definition add :: "thread \<Rightarrow> func \<Rightarrow> world \<Rightarrow> world option" where
  "add t f s = addWithPriority t f LO_PRI s"

subsection \<open>The delay monitor: delayCheckCallback\<close>

definition time_point_min :: int where
  "time_point_min = - (2 ^ 63)"

definition time_point_max :: int where
  "time_point_max = 2 ^ 63 - 1"

text \<open>The difference of two time points is again an \<open>int64_t\<close> count of nanoseconds.
  C++ leaves a difference that does not fit undefined; here it wraps around.\<close>

definition wrap_int64 :: "int \<Rightarrow> int" where
  "wrap_int64 x = (x + 2 ^ 63) mod 2 ^ 64 - 2 ^ 63"

text \<open>\<open>duration_cast<microseconds>\<close> divides the count by 1000 and truncates towards
  zero.\<close>

definition duration_cast_us :: "int \<Rightarrow> int" where
  "duration_cast_us ns = sgn ns * (\<bar>ns\<bar> div 1000)"

text \<open>\<open>uint64_t cur_delay = duration_cast<microseconds>(now - start).count()\<close>.\<close>

definition cur_delay :: "int \<Rightarrow> int \<Rightarrow> 64 word" where
  "cur_delay now start = word_of_int (duration_cast_us (wrap_int64 (now - start)))"

text \<open>The callback of \<open>scheduled_event\<close>, run by the thread of the loop with the
  reading \<open>now\<close> of the steady clock. Both branches dereference \<open>scheduled_event\<close>;
  on a null pointer the result is \<open>None\<close>.\<close>

definition delayCheckCallback :: "int \<Rightarrow> world \<Rightarrow> world option" where
  "delayCheckCallback now s =
     (case scheduled_event s of
        None \<Rightarrow> None
      | Some ev \<Rightarrow>
          (if scheduled_event_start_time s \<noteq> time_point_min then
             (let s1 = act LoopThread (Evtimer_add (CommonTimeout 1)) s;
                  s2 = (if now > scheduled_event_start_time s1
                        then s1\<lparr>delay_us :=
                               delay_us s1 + cur_delay now (scheduled_event_start_time s1)\<rparr>
                        else s1)
              in Some (s2\<lparr>scheduled_event_start_time := time_point_min\<rparr>))
           else
             (let s1 = act LoopThread (Evtimer_add ZeroTimeout) s
              in Some (s1\<lparr>scheduled_event_start_time := now\<rparr>))))"

text \<open>The two states of the monitor.\<close>

definition Idle :: "world \<Rightarrow> bool" where
  "Idle s = (scheduled_event_start_time s = time_point_min)"

definition Waiting :: "world \<Rightarrow> bool" where
  "Waiting s = (scheduled_event_start_time s \<noteq> time_point_min)"

text \<open>The states the object is in before, between and after a sequence of callbacks
  that fire at the given readings of the clock; the sequence ends early at a callback
  that has no result.\<close>

fun history :: "int list \<Rightarrow> world \<Rightarrow> world list" where
  "history [] s = [s]"
| "history (now # ts) s =
     s # (case delayCheckCallback now s of None \<Rightarrow> [] | Some s' \<Rightarrow> history ts s')"

text \<open>What a steady clock delivers. A single reading is a representable time point
  other than the smallest one, which the monitor uses as its mark for "no start time
  recorded", and it is not before the recorded start time, nor further from it than a
  duration can hold. A sequence of readings never decreases and spans no more than a
  duration can hold.\<close>

definition steady_reading :: "world \<Rightarrow> int \<Rightarrow> bool" where
  "steady_reading s now =
     (time_point_min < now \<and> now \<le> time_point_max \<and>
      (Waiting s \<longrightarrow> scheduled_event_start_time s \<le> now \<and>
                     now - scheduled_event_start_time s \<le> time_point_max))"

definition steady_clock :: "int list \<Rightarrow> bool" where
  "steady_clock ts =
     (sorted ts \<and> (\<forall>t\<in>set ts. time_point_min < t \<and> t \<le> time_point_max) \<and>
      (ts \<noteq> [] \<longrightarrow> last ts - hd ts \<le> time_point_max))"

subsection \<open>Starting up: createEventBase and init\<close>

text \<open>\<open>createEventBase\<close>, on thread \<open>t\<close>: the base, or null with \<open>err\<close> of that
  thread set. Allocation by \<open>make_unique\<close> is taken to succeed.\<close>

definition createEventBase :: "env \<Rightarrow> thread \<Rightarrow> world \<Rightarrow> EvBase option \<times> world" where
  "createEventBase e t s =
     (let s1 = act t EvBase_init s
      in case evbase_init e of
           EvBase_NO_MEM \<Rightarrow>
             (let s2 = act t (Ld_error ''Failed to create an event base for an EventLoop thread'') s1
              in (None, s2\<lparr>err := (err s2)(t := NOMEM)\<rparr>))
         | EvBase_INVALID_PRIORITY \<Rightarrow>
             (let s2 = act t (Ld_error ''failed to initialize eventbase priorities'') s1
              in (None, s2\<lparr>err := (err s2)(t := SYSLIMIT)\<rparr>))
         | EvBase_OK \<Rightarrow> (Some The_EvBase, s1)
         | EvBase_OTHER \<Rightarrow>
             (let s2 = act t (Ld_error ''Internal error when initializing EvBase'') s1
              in (None, s2\<lparr>err := (err s2)(t := INTERNAL)\<rparr>)))"

text \<open>The closure that init posts: it saves \<open>this\<close> in the thread-local, creates the
  event of the monitor, and, unless the pointer to it is null, adds its timer with the
  common timeout of one second. The result of \<open>evtimer_add\<close> is not looked at.\<close>

definition bootstrap :: "env \<Rightarrow> world \<Rightarrow> world" where
  "bootstrap e s =
     (let s1 = act LoopThread Set_thisThreadLoop
                 (s\<lparr>thisThreadLoop := (thisThreadLoop s)(LoopThread := Some This)\<rparr>);
          s2 = act LoopThread Event_create
                 (s1\<lparr>scheduled_event := (if event_created e then Some The_Event else None)\<rparr>)
      in if scheduled_event s2 = None then s2
         else act LoopThread (Evtimer_add (CommonTimeout 1)) s2)"

text \<open>Running a closure on the thread of the loop. What a caller's closure does is
  outside the file; the call is logged.\<close>

definition run_func :: "env \<Rightarrow> func \<Rightarrow> world \<Rightarrow> world" where
  "run_func e f s =
     (case f of Bootstrap \<Rightarrow> bootstrap e s | Closure n \<Rightarrow> act LoopThread (Call_closure n) s)"

text \<open>Modelled from the spec: EvBase::loopOnce (not among the sources), "run exactly
  one non-blocking reactor pass". Whether the pass serves the queue is the
  environment's choice; if it does, the oldest item is taken off the queue and run.
  When init calls it, the queue holds the one closure init has posted, or nothing if
  the queue has refused it.\<close>

definition loopOnce :: "env \<Rightarrow> world \<Rightarrow> world" where
  "loopOnce e s =
     (let s1 = act LoopThread EvBase_loopOnce s
      in case task_queue s1 of
           None \<Rightarrow> s1
         | Some q \<Rightarrow>
             (case items q of
                [] \<Rightarrow> s1
              | pf # rest \<Rightarrow>
                  if loop_once_drains e
                  then run_func e (snd pf) (s1\<lparr>task_queue := Some (q\<lparr>items := rest\<rparr>)\<rparr>)
                  else s1))"

text \<open>\<open>EventLoop::init\<close>, run by the spawned thread: the status it returns and the
  state it leaves. It does not look at what the queue answers to \<open>add\<close>.\<close>

definition init :: "env \<Rightarrow> nat \<Rightarrow> nat list \<Rightarrow> world \<Rightarrow> Status \<times> world" where
  "init e request_pump_capacity requests_per_iteration' s =
     (let s1 = (act LoopThread Syscall_gettid s)\<lparr>tid := gettid e\<rparr>;
          s2 = act LoopThread (ThreadID_set (thread_type s1) (thread_name s1)) s1;
          (b, s3) = createEventBase e LoopThread s2;
          s4 = s3\<lparr>base := b\<rparr>
      in case base s4 of
           None \<Rightarrow> (err s4 LoopThread, s4)
         | Some b' \<Rightarrow>
           (let s5 = act LoopThread
                       (TaskQueue_create b' request_pump_capacity requests_per_iteration')
                       (s4\<lparr>task_queue :=
                             Some (TaskQueue_new b' request_pump_capacity
                                     requests_per_iteration')\<rparr>);
                s6 = act LoopThread TaskQueue_setCloseEventLoopOnShutdown
                       (s5\<lparr>task_queue := map_option tq_setCloseEventLoopOnShutdown (task_queue s5)\<rparr>);
                s7 = act LoopThread (TaskQueue_add Bootstrap)
                       (s6\<lparr>task_queue :=
                             map_option (\<lambda>q. snd (tq_add Bootstrap q)) (task_queue s6)\<rparr>);
                s8 = loopOnce e s7
            in if scheduled_event s8 = None then (INTERNAL, s8) else (OK, s8)))"

subsection \<open>The run loop\<close>

text \<open>A call that blocks either returns or never does.\<close>

datatype 'a outcome = Returned 'a | Never_returns 'a

text \<open>\<open>EventLoop::run\<close>: \<open>None\<close> when \<open>base\<close> is null. \<open>EvBase::loop\<close> returns
  with the status the environment gives, or never.\<close>

definition run :: "env \<Rightarrow> world \<Rightarrow> world outcome option" where
  "run e s =
     (case base s of
        None \<Rightarrow> None
      | Some b \<Rightarrow>
          (let s1 = act LoopThread EvBase_loop s
           in case loop_exit e of
                None \<Rightarrow> Some (Never_returns s1)
              | Some status \<Rightarrow>
                  (let s2 = (if status \<noteq> EvBase_OK
                             then act LoopThread (Ld_error ''EvBase::loop() exited abnormally'') s1
                             else s1)
                   in Some (Returned (act LoopThread Event_reset (s2\<lparr>scheduled_event := None\<rparr>))))))"

subsection \<open>The destructor\<close>

datatype fault = Check_failed | Null_dereference

text \<open>\<open>EventLoop::~EventLoop\<close>, run by the owner of the object. A failed \<open>ld_check\<close>
  and a null \<open>task_queue\<close> end it with a fault. After the body, on both of its ways
  out, the members are destroyed. The destructor is given as the sequence of the calls
  it makes: when \<open>thread_.join()\<close> returns is up to the loop, which leaves
  \<open>EvBase::loop\<close> after the shutdown of the queue.\<close>

definition destructor :: "world \<Rightarrow> fault + world" where
  "destructor s =
     (if num_references s \<noteq> 0 then Inl Check_failed
      else if \<not> thread_joinable s then Inr (act Caller Members_destroyed s)
      else
        (case task_queue s of
           None \<Rightarrow> Inl Null_dereference
         | Some q \<Rightarrow>
             (let s1 = act Caller TaskQueue_shutdown (s\<lparr>task_queue := Some (tq_shutdown q)\<rparr>);
                  s2 = act Caller Thread_join (s1\<lparr>thread_joinable := False\<rparr>)
              in Inr (act Caller Members_destroyed s2))))"

subsection \<open>The constructor and the thread it spawns\<close>

text \<open>
  The constructor and the closure it hands to \<open>std::thread\<close> run on two threads that
  meet at the semaphore \<open>initialized\<close> and at \<open>thread_.join()\<close>. Each thread is a
  sequence of steps; a scheduler picks which thread takes the next step, and a thread
  that is picked while it is blocked (in \<open>wait\<close> with the semaphore at zero, in \<open>join\<close>
  with the other thread still running) stays where it is. The locals they share are
  the semaphore, \<open>init_result\<close> of the constructor, and \<open>res\<close> of the closure.
  The call of \<open>init\<close> is one step, and so is the call of \<open>run\<close>: while \<open>init\<close> runs,
  the constructor is in \<open>wait\<close> and the semaphore is at zero, so no step of the
  constructor can fall between two calls that \<open>init\<close> makes; and \<open>run\<close> shares nothing
  with the steps the constructor has left.
\<close>

datatype caller_pc =
    Before_spawn | In_wait | After_wait | In_join | Before_throw
  | Constructed | Constructor_failed

datatype loop_pc =
    Not_started | Before_init | Before_post | After_post | Before_run | In_loop
  | Exited | Faulted

record construction =
  w :: world
  initialized :: nat
  init_result :: Status
  res :: "Status option"
  caller_at :: caller_pc
  loop_at :: loop_pc

text \<open>The constructor up to the creation of the thread: the three members of the
  initialiser list, the pointers and the thread handle empty, the semaphore at zero,
  \<open>init_result\<close> at INTERNAL, and an empty log. The members that the class definition
  initialises (it is not among the sources) are as \<open>w0\<close> has them.\<close>

definition EventLoop_begin :: "string \<Rightarrow> nat \<Rightarrow> bool \<Rightarrow> world \<Rightarrow> construction" where
  "EventLoop_begin thread_name' thread_type' enable_priority_queues w0 =
     \<lparr>w = w0\<lparr>thread_type := thread_type', thread_name := thread_name',
              priority_queues_enabled := enable_priority_queues,
              base := None, task_queue := None, scheduled_event := None,
              thread_joinable := False, trace := []\<rparr>,
      initialized = 0, init_result = INTERNAL, res = None,
      caller_at = Before_spawn, loop_at = Not_started\<rparr>"

text \<open>The steps of the constructor: create the thread, whose \<open>thisThreadLoop\<close> starts
  null; wait on the semaphore; test \<open>init_result\<close> and, on a failure, copy it to \<open>err\<close>;
  join; throw. The steps of \<open>wait\<close> and of \<open>join\<close> are taken when the call returns, so
  \<open>Semaphore_wait\<close> and \<open>Thread_join\<close> enter the log at the return.\<close>

definition caller_step :: "construction \<Rightarrow> construction" where
  "caller_step c =
     (case caller_at c of
        Before_spawn \<Rightarrow>
          c\<lparr>w := act Caller Thread_spawn
                   ((w c)\<lparr>thread_joinable := True,
                          thisThreadLoop := (thisThreadLoop (w c))(LoopThread := None)\<rparr>),
            caller_at := In_wait, loop_at := Before_init\<rparr>
      | In_wait \<Rightarrow>
          if initialized c > 0
          then c\<lparr>w := act Caller Semaphore_wait (w c),
                 initialized := initialized c - 1, caller_at := After_wait\<rparr>
          else c
      | After_wait \<Rightarrow>
          if init_result c \<noteq> OK
          then c\<lparr>w := (w c)\<lparr>err := (err (w c))(Caller := init_result c)\<rparr>, caller_at := In_join\<rparr>
          else c\<lparr>caller_at := Constructed\<rparr>
      | In_join \<Rightarrow>
          if loop_at c = Exited
          then c\<lparr>w := act Caller Thread_join ((w c)\<lparr>thread_joinable := False\<rparr>),
                 caller_at := Before_throw\<rparr>
          else c
      | Before_throw \<Rightarrow>
          c\<lparr>w := act Caller Throw_ConstructorFailed (w c), caller_at := Constructor_failed\<rparr>
      | Constructed \<Rightarrow> c
      | Constructor_failed \<Rightarrow> c)"

text \<open>The steps of the closure: \<open>auto res = init_result = init(...)\<close>; post the
  semaphore; test \<open>res\<close>; \<open>run()\<close>; return.\<close>

definition loop_step :: "env \<Rightarrow> nat \<Rightarrow> nat list \<Rightarrow> construction \<Rightarrow> construction" where
  "loop_step e request_pump_capacity requests_per_iteration' c =
     (case loop_at c of
        Not_started \<Rightarrow> c
      | Before_init \<Rightarrow>
          (let (r, w') = init e request_pump_capacity requests_per_iteration' (w c)
           in c\<lparr>w := w', init_result := r, res := Some r, loop_at := Before_post\<rparr>)
      | Before_post \<Rightarrow>
          c\<lparr>w := act LoopThread Semaphore_post (w c),
            initialized := initialized c + 1, loop_at := After_post\<rparr>
      | After_post \<Rightarrow>
          if res c = Some OK then c\<lparr>loop_at := Before_run\<rparr>
          else c\<lparr>w := act LoopThread Thread_exit (w c), loop_at := Exited\<rparr>
      | Before_run \<Rightarrow>
          (case run e (w c) of
             None \<Rightarrow> c\<lparr>loop_at := Faulted\<rparr>
           | Some (Never_returns w') \<Rightarrow> c\<lparr>w := w', loop_at := In_loop\<rparr>
           | Some (Returned w') \<Rightarrow> c\<lparr>w := act LoopThread Thread_exit w', loop_at := Exited\<rparr>)
      | In_loop \<Rightarrow> c
      | Exited \<Rightarrow> c
      | Faulted \<Rightarrow> c)"

definition step :: "env \<Rightarrow> nat \<Rightarrow> nat list \<Rightarrow> thread \<Rightarrow> construction \<Rightarrow> construction" where
  "step e request_pump_capacity requests_per_iteration' t c =
     (case t of
        Caller \<Rightarrow> caller_step c
      | LoopThread \<Rightarrow> loop_step e request_pump_capacity requests_per_iteration' c)"

text \<open>A schedule is the list of the threads picked, in order.\<close>

fun exec :: "env \<Rightarrow> nat \<Rightarrow> nat list \<Rightarrow> thread list \<Rightarrow> construction \<Rightarrow> construction" where
  "exec e request_pump_capacity requests_per_iteration' [] c = c"
| "exec e request_pump_capacity requests_per_iteration' (t # ts) c =
     exec e request_pump_capacity requests_per_iteration' ts
       (step e request_pump_capacity requests_per_iteration' t c)"

text \<open>The construction of an EventLoop under a schedule.\<close>

definition EventLoop_construct ::
  "env \<Rightarrow> string \<Rightarrow> nat \<Rightarrow> nat \<Rightarrow> bool \<Rightarrow> nat list \<Rightarrow> world \<Rightarrow> thread list \<Rightarrow> construction" where
  "EventLoop_construct e thread_name' thread_type' request_pump_capacity enable_priority_queues
       requests_per_iteration' w0 schedule =
     exec e request_pump_capacity requests_per_iteration' schedule
       (EventLoop_begin thread_name' thread_type' enable_priority_queues w0)"

text \<open>The steps a schedule gives the spawned thread once it exists: the picks of it
  that come after the first pick of the constructor, which creates it.\<close>

definition thread_steps :: "thread list \<Rightarrow> nat" where
  "thread_steps schedule = count_list (dropWhile (\<lambda>t. t \<noteq> Caller) schedule) LoopThread"

text \<open>The state in which the spawned thread starts: the one the first step of the
  constructor leaves.\<close>

definition spawn_world :: "string \<Rightarrow> nat \<Rightarrow> bool \<Rightarrow> world \<Rightarrow> world" where
  "spawn_world thread_name' thread_type' enable_priority_queues w0 =
     w (caller_step (EventLoop_begin thread_name' thread_type' enable_priority_queues w0))"

subsection \<open>Reading the log\<close>

text \<open>\<open>precedes a b tr\<close>: both occur in the log, and \<open>a\<close> occurs before the first
  \<open>b\<close>.\<close>

definition precedes :: "'a \<Rightarrow> 'a \<Rightarrow> 'a list \<Rightarrow> bool" where
  "precedes a b tr = (a \<in> set (takeWhile (\<lambda>x. x \<noteq> b) tr) \<and> b \<in> set tr)"

text \<open>\<open>starts_with xs ys\<close>: the log \<open>ys\<close> begins with \<open>xs\<close>.\<close>

definition starts_with :: "'a list \<Rightarrow> 'a list \<Rightarrow> bool" where
  "starts_with xs ys = (take (length xs) ys = xs)"

text \<open>What a call has appended to the log.\<close>

definition performed :: "world \<Rightarrow> world \<Rightarrow> (thread \<times> action) list" where
  "performed s s' = drop (length (trace s)) (trace s')"

text \<open>An object on which nothing has run yet: null pointers, no thread, the monitor
  idle and its counter at zero, an empty log.\<close>

definition fresh :: world where
  "fresh =
     \<lparr>thread_type = 0, thread_name = [], priority_queues_enabled = False, tid = 0,
      base = None, task_queue = None, scheduled_event = None,
      scheduled_event_start_time = time_point_min, delay_us = 0,
      thread_joinable = False, num_references = 0,
      err = (\<lambda>t. OK), thisThreadLoop = (\<lambda>t. None), trace = []\<rparr>"

subsection \<open>Definitions for the proofs\<close>

text \<open>The bound that keeps \<open>delay_us\<close> from wrapping around: the microseconds counted
  so far, times 1000, are covered by the nanoseconds that have passed between the first
  reading \<open>lo\<close> and the start time, if one is recorded, or the latest reading \<open>cur\<close>.\<close>

definition mon_inv :: "int \<Rightarrow> int \<Rightarrow> world \<Rightarrow> bool" where
  "mon_inv lo cur s =
     (lo \<le> cur \<and> scheduled_event s \<noteq> None \<and>
      (if Waiting s
       then lo \<le> scheduled_event_start_time s \<and> scheduled_event_start_time s \<le> cur \<and>
            1000 * uint (delay_us s) \<le> scheduled_event_start_time s - lo
       else 1000 * uint (delay_us s) \<le> cur - lo))"

text \<open>The calls init makes, in the order in which it makes them. A queue of capacity
  zero refuses the closure, and the pass has nothing to serve.\<close>

definition init_actions :: "env \<Rightarrow> nat \<Rightarrow> nat list \<Rightarrow> world \<Rightarrow> action list" where
  "init_actions e cap rpi s =
     [Syscall_gettid, ThreadID_set (thread_type s) (thread_name s), EvBase_init] @
     (case evbase_init e of
        EvBase_OK \<Rightarrow>
          [TaskQueue_create The_EvBase cap rpi, TaskQueue_setCloseEventLoopOnShutdown,
           TaskQueue_add Bootstrap, EvBase_loopOnce] @
          (if loop_once_drains e \<and> 0 < cap
           then [Set_thisThreadLoop, Event_create] @
                (if event_created e then [Evtimer_add (CommonTimeout 1)] else [])
           else [])
      | EvBase_NO_MEM \<Rightarrow> [Ld_error ''Failed to create an event base for an EventLoop thread'']
      | EvBase_INVALID_PRIORITY \<Rightarrow> [Ld_error ''failed to initialize eventbase priorities'']
      | EvBase_OTHER \<Rightarrow> [Ld_error ''Internal error when initializing EvBase''])"

text \<open>The kinds of call that init makes.\<close>

fun init_action :: "action \<Rightarrow> bool" where
  "init_action Syscall_gettid = True"
| "init_action (ThreadID_set n m) = True"
| "init_action EvBase_init = True"
| "init_action (Ld_error m) = True"
| "init_action (TaskQueue_create b n rpi) = True"
| "init_action TaskQueue_setCloseEventLoopOnShutdown = True"
| "init_action (TaskQueue_add f) = True"
| "init_action EvBase_loopOnce = True"
| "init_action Set_thisThreadLoop = True"
| "init_action Event_create = True"
| "init_action (Evtimer_add t) = True"
| "init_action a = False"

text \<open>The \<open>err\<close> that createEventBase sets for a status of \<open>EvBase::init\<close>.\<close>

definition creation_status :: "EvBase_Status \<Rightarrow> Status" where
  "creation_status st = (case st of EvBase_OK \<Rightarrow> OK | EvBase_NO_MEM \<Rightarrow> NOMEM
       | EvBase_INVALID_PRIORITY \<Rightarrow> SYSLIMIT | EvBase_OTHER \<Rightarrow> INTERNAL)"

text \<open>The six events at which the two threads of a construction meet or part.\<close>

abbreviation sem_post :: "thread \<times> action" where
  "sem_post \<equiv> (LoopThread, Semaphore_post)"

abbreviation sem_wait :: "thread \<times> action" where
  "sem_wait \<equiv> (Caller, Semaphore_wait)"

abbreviation thread_join :: "thread \<times> action" where
  "thread_join \<equiv> (Caller, Thread_join)"

abbreviation ctor_throw :: "thread \<times> action" where
  "ctor_throw \<equiv> (Caller, Throw_ConstructorFailed)"

abbreviation thread_exit :: "thread \<times> action" where
  "thread_exit \<equiv> (LoopThread, Thread_exit)"

abbreviation loop_call :: "thread \<times> action" where
  "loop_call \<equiv> (LoopThread, EvBase_loop)"

text \<open>
  A construction passes through three states in which only one thread can move: the
  start, the state after the thread is created (\<open>at_spawn\<close>), and the state after init
  has returned (\<open>at_post\<close>). From the post of the semaphore on, the threads interleave,
  and what holds is stated in three parts, for a status \<open>r\<close> and a state \<open>wi\<close> that
  init has returned: what the shared locals and the log hold (\<open>inv_data\<close>), where the
  constructor stands (\<open>inv_caller\<close>), and where the closure stands (\<open>inv_loop\<close>).
\<close>

definition at_spawn :: "string \<Rightarrow> nat \<Rightarrow> bool \<Rightarrow> world \<Rightarrow> construction" where
  "at_spawn name type enable w0 = caller_step (EventLoop_begin name type enable w0)"

definition at_post :: "env \<Rightarrow> nat \<Rightarrow> nat list \<Rightarrow> string \<Rightarrow> nat \<Rightarrow> bool \<Rightarrow> world \<Rightarrow> construction" where
  "at_post e cap rpi name type enable w0 =
     \<lparr>w = snd (init e cap rpi (spawn_world name type enable w0)), initialized = 0,
      init_result = fst (init e cap rpi (spawn_world name type enable w0)),
      res = Some (fst (init e cap rpi (spawn_world name type enable w0))),
      caller_at = In_wait, loop_at = Before_post\<rparr>"

definition inv_data :: "Status \<Rightarrow> world \<Rightarrow> construction \<Rightarrow> bool" where
  "inv_data r wi c =
     (init_result c = r \<and> res c = Some r \<and>
      starts_with (trace wi @ [sem_post]) (trace (w c)) \<and>
      count_list (trace (w c)) sem_post = 1 \<and>
      thisThreadLoop (w c) LoopThread = thisThreadLoop wi LoopThread \<and>
      base (w c) = base wi \<and>
      initialized c = (if caller_at c = In_wait then 1 else 0))"

definition inv_caller :: "Status \<Rightarrow> construction \<Rightarrow> bool" where
  "inv_caller r c =
     (caller_at c \<noteq> Before_spawn \<and>
      (sem_wait \<in> set (trace (w c))) = (caller_at c \<noteq> In_wait) \<and>
      (thread_join \<in> set (trace (w c))) = (caller_at c = Before_throw \<or> caller_at c = Constructor_failed) \<and>
      (ctor_throw \<in> set (trace (w c))) = (caller_at c = Constructor_failed) \<and>
      (caller_at c = Constructed \<longrightarrow> r = OK) \<and>
      (caller_at c = In_join \<or> caller_at c = Before_throw \<or> caller_at c = Constructor_failed \<longrightarrow>
         r \<noteq> OK \<and> err (w c) Caller = r) \<and>
      (caller_at c = Before_throw \<or> caller_at c = Constructor_failed \<longrightarrow>
         loop_at c = Exited \<and> \<not> thread_joinable (w c) \<and> precedes thread_exit thread_join (trace (w c))) \<and>
      (caller_at c = Constructor_failed \<longrightarrow> precedes thread_join ctor_throw (trace (w c))))"

definition inv_loop :: "Status \<Rightarrow> construction \<Rightarrow> bool" where
  "inv_loop r c =
     (loop_at c \<noteq> Not_started \<and> loop_at c \<noteq> Before_init \<and> loop_at c \<noteq> Before_post \<and>
      loop_at c \<noteq> Faulted \<and>
      (thread_exit \<in> set (trace (w c))) = (loop_at c = Exited) \<and>
      (loop_call \<in> set (trace (w c))) = (loop_at c = In_loop \<or> loop_at c = Exited \<and> r = OK) \<and>
      (loop_at c = Before_run \<or> loop_at c = In_loop \<longrightarrow> r = OK))"

definition post_inv :: "Status \<Rightarrow> world \<Rightarrow> construction \<Rightarrow> bool" where
  "post_inv r wi c = (inv_data r wi c \<and> inv_caller r c \<and> inv_loop r c)"

text \<open>Where the closure stands after \<open>n\<close> steps, when init returns \<open>r\<close>.\<close>

definition loop_pc_after :: "env \<Rightarrow> Status \<Rightarrow> nat \<Rightarrow> loop_pc" where
  "loop_pc_after e r n =
     (if n = 0 then Before_init
      else if n = 1 then Before_post
      else if n = 2 then After_post
      else if r \<noteq> OK then Exited
      else if n = 3 then Before_run
      else (case loop_exit e of None \<Rightarrow> In_loop | Some st \<Rightarrow> Exited))"

definition construction_inv ::
  "env \<Rightarrow> nat \<Rightarrow> nat list \<Rightarrow> string \<Rightarrow> nat \<Rightarrow> bool \<Rightarrow> world \<Rightarrow> construction \<Rightarrow> bool" where
  "construction_inv e cap rpi name type enable w0 c =
     (c = EventLoop_begin name type enable w0 \<or>
      c = at_spawn name type enable w0 \<or>
      c = at_post e cap rpi name type enable w0 \<or>
      post_inv (fst (init e cap rpi (spawn_world name type enable w0)))
        (snd (init e cap rpi (spawn_world name type enable w0))) c)"

section \<open>Submitting work\<close>

lemma bucket_tq_addWithPriority:
  "bucket r (snd (tq_addWithPriority f p q)) =
     (if tq_accepts q \<and> r = p then bucket r q @ [f] else bucket r q)"
  by (simp add: bucket_def tq_addWithPriority_def)

lemma addWithPriority_forwards:
  assumes "task_queue s = Some q"
  shows "addWithPriority t f p s =
           Some (s\<lparr>task_queue :=
                     Some (snd (tq_addWithPriority f
                                  (if priority_queues_enabled s then p else HI_PRI) q)),
                   trace := trace s @
                     [(t, TaskQueue_addWithPriority f
                            (if priority_queues_enabled s then p else HI_PRI))]\<rparr>)"
  using assms by (simp add: addWithPriority_def act_def Let_def)

text \<open>
  C6: on an EventLoop that has its task queue, \<open>addWithPriority\<close> of any item at any
  priority makes one call of the queue's \<open>addWithPriority\<close>, with the item and with the
  priority given when priority queues are enabled, with HI_PRI when they are disabled,
  whatever priority is given; it changes nothing but the queue and the log. If the
  queue accepts the submission (it is not shut down and not full), the item is at the
  end of the bucket of that priority afterwards and every other bucket is as before;
  if the queue refuses it, every bucket is as before. (\<open>r\<close> ranges over all buckets.)
\<close>

theorem addWithPriority_bucket:
  assumes "task_queue s = Some q"
  shows "addWithPriority t f p s =
           Some (s\<lparr>task_queue :=
                     Some (snd (tq_addWithPriority f
                                  (if priority_queues_enabled s then p else HI_PRI) q)),
                   trace := trace s @
                     [(t, TaskQueue_addWithPriority f
                            (if priority_queues_enabled s then p else HI_PRI))]\<rparr>) \<and>
         map_option (bucket r) (Option.bind (addWithPriority t f p s) task_queue) =
           Some (if tq_accepts q
                 then (if priority_queues_enabled s
                       then (if r = p then bucket r q @ [f] else bucket r q)
                       else (if r = HI_PRI then bucket r q @ [f] else bucket r q))
                 else bucket r q)"
  by (simp add: addWithPriority_forwards [OF assms] bucket_tq_addWithPriority)

text \<open>Priority queues disabled, a submission at MID_PRI: on a new queue it lands in the
  bucket of HI_PRI and not in that of MID_PRI; on a queue that is shut down it lands
  nowhere, and the call is still made at HI_PRI.\<close>

theorem addWithPriority_bucket_witness:
  "task_queue (fresh\<lparr>task_queue := Some (TaskQueue_new The_EvBase 16 [8, 4, 2])\<rparr>) =
     Some (TaskQueue_new The_EvBase 16 [8, 4, 2]) \<and>
   tq_accepts (TaskQueue_new The_EvBase 16 [8, 4, 2]) \<and>
   map_option (bucket HI_PRI)
     (Option.bind
        (addWithPriority Caller (Closure 7) MID_PRI
           (fresh\<lparr>task_queue := Some (TaskQueue_new The_EvBase 16 [8, 4, 2])\<rparr>))
        task_queue) = Some [Closure 7] \<and>
   map_option (bucket MID_PRI)
     (Option.bind
        (addWithPriority Caller (Closure 7) MID_PRI
           (fresh\<lparr>task_queue := Some (TaskQueue_new The_EvBase 16 [8, 4, 2])\<rparr>))
        task_queue) = Some [] \<and>
   addWithPriority Caller (Closure 7) MID_PRI
     (fresh\<lparr>task_queue := Some (tq_shutdown (TaskQueue_new The_EvBase 16 [8, 4, 2]))\<rparr>) =
     Some (fresh\<lparr>task_queue := Some (tq_shutdown (TaskQueue_new The_EvBase 16 [8, 4, 2])),
                  trace := [(Caller, TaskQueue_addWithPriority (Closure 7) HI_PRI)]\<rparr>)"
proof -
  let ?s = "fresh\<lparr>task_queue := Some (TaskQueue_new The_EvBase 16 [8, 4, 2])\<rparr>"
  let ?d = "fresh\<lparr>task_queue := Some (tq_shutdown (TaskQueue_new The_EvBase 16 [8, 4, 2]))\<rparr>"
  have h: "task_queue ?s = Some (TaskQueue_new The_EvBase 16 [8, 4, 2])"
    by simp
  have d: "task_queue ?d = Some (tq_shutdown (TaskQueue_new The_EvBase 16 [8, 4, 2]))"
    by simp
  have e: "\<not> priority_queues_enabled ?s"
    by (simp add: fresh_def)
  show ?thesis
    using h e
      addWithPriority_bucket [OF h, of Caller "Closure 7" MID_PRI HI_PRI]
      addWithPriority_bucket [OF h, of Caller "Closure 7" MID_PRI MID_PRI]
      addWithPriority_bucket [OF d, of Caller "Closure 7" MID_PRI HI_PRI]
    by (simp add: MID_PRI_def HI_PRI_def addWithPriority_def act_def bucket_def
        TaskQueue_new_def tq_addWithPriority_def tq_accepts_def tq_shutdown_def fresh_def)
qed

text \<open>
  C8: on an EventLoop that has its task queue, \<open>add\<close> of an item is \<open>addWithPriority\<close>
  of it at LO_PRI: it makes one call of the queue's \<open>addWithPriority\<close>, at LO_PRI when
  priority queues are enabled and at HI_PRI when they are disabled, as every other
  submission is remapped. If the queue accepts the submission, the item is at the end
  of the bucket of that priority afterwards and every other bucket is as before; if
  the queue refuses it, every bucket is as before.
\<close>

theorem add_is_addWithPriority_LO_PRI:
  assumes "task_queue s = Some q"
  shows "add t f s = addWithPriority t f LO_PRI s \<and>
         add t f s =
           Some (s\<lparr>task_queue :=
                     Some (snd (tq_addWithPriority f
                                  (if priority_queues_enabled s then LO_PRI else HI_PRI) q)),
                   trace := trace s @
                     [(t, TaskQueue_addWithPriority f
                            (if priority_queues_enabled s then LO_PRI else HI_PRI))]\<rparr>) \<and>
         map_option (bucket r) (Option.bind (add t f s) task_queue) =
           Some (if tq_accepts q
                 then (if priority_queues_enabled s
                       then (if r = LO_PRI then bucket r q @ [f] else bucket r q)
                       else (if r = HI_PRI then bucket r q @ [f] else bucket r q))
                 else bucket r q)"
  by (simp add: add_def addWithPriority_forwards [OF assms] bucket_tq_addWithPriority)

text \<open>Priority queues enabled: on a new queue the item lands in the bucket of LO_PRI
  and not in that of HI_PRI; on a queue of capacity zero it lands nowhere, and the call
  is still made at LO_PRI.\<close>

theorem add_is_addWithPriority_LO_PRI_witness:
  "task_queue (fresh\<lparr>task_queue := Some (TaskQueue_new The_EvBase 16 [8, 4, 2]),
                     priority_queues_enabled := True\<rparr>) =
     Some (TaskQueue_new The_EvBase 16 [8, 4, 2]) \<and>
   tq_accepts (TaskQueue_new The_EvBase 16 [8, 4, 2]) \<and>
   map_option (bucket LO_PRI)
     (Option.bind
        (add Caller (Closure 7)
           (fresh\<lparr>task_queue := Some (TaskQueue_new The_EvBase 16 [8, 4, 2]),
                  priority_queues_enabled := True\<rparr>))
        task_queue) = Some [Closure 7] \<and>
   map_option (bucket HI_PRI)
     (Option.bind
        (add Caller (Closure 7)
           (fresh\<lparr>task_queue := Some (TaskQueue_new The_EvBase 16 [8, 4, 2]),
                  priority_queues_enabled := True\<rparr>))
        task_queue) = Some [] \<and>
   add Caller (Closure 7)
     (fresh\<lparr>task_queue := Some (TaskQueue_new The_EvBase 0 [8, 4, 2]),
            priority_queues_enabled := True\<rparr>) =
     Some (fresh\<lparr>task_queue := Some (TaskQueue_new The_EvBase 0 [8, 4, 2]),
                  priority_queues_enabled := True,
                  trace := [(Caller, TaskQueue_addWithPriority (Closure 7) LO_PRI)]\<rparr>)"
proof -
  let ?s = "fresh\<lparr>task_queue := Some (TaskQueue_new The_EvBase 16 [8, 4, 2]),
                  priority_queues_enabled := True\<rparr>"
  let ?z = "fresh\<lparr>task_queue := Some (TaskQueue_new The_EvBase 0 [8, 4, 2]),
                  priority_queues_enabled := True\<rparr>"
  have h: "task_queue ?s = Some (TaskQueue_new The_EvBase 16 [8, 4, 2])"
    by simp
  have z: "task_queue ?z = Some (TaskQueue_new The_EvBase 0 [8, 4, 2])"
    by simp
  show ?thesis
    using h
      add_is_addWithPriority_LO_PRI [OF h, of Caller "Closure 7" LO_PRI]
      add_is_addWithPriority_LO_PRI [OF h, of Caller "Closure 7" HI_PRI]
      add_is_addWithPriority_LO_PRI [OF z, of Caller "Closure 7" LO_PRI]
    by (simp add: LO_PRI_def HI_PRI_def add_def addWithPriority_def act_def bucket_def
        TaskQueue_new_def tq_addWithPriority_def tq_accepts_def fresh_def)
qed

section \<open>The delay monitor\<close>

lemma wrap_int64_id: "- (2 ^ 63) \<le> x \<Longrightarrow> x < 2 ^ 63 \<Longrightarrow> wrap_int64 x = x"
  by (simp add: wrap_int64_def)

lemma duration_cast_us_pos: "0 \<le> ns \<Longrightarrow> duration_cast_us ns = ns div 1000"
  by (cases "ns = 0") (simp_all add: duration_cast_us_def)

lemma cur_delay_steady:
  assumes "start \<le> now" "now - start \<le> time_point_max"
  shows "cur_delay now start = word_of_int ((now - start) div 1000)"
proof -
  have d: "0 \<le> now - start" "now - start < 2 ^ 63"
    using assms by (simp_all add: time_point_max_def)
  have w: "wrap_int64 (now - start) = now - start"
    using d by (intro wrap_int64_id) simp_all
  show ?thesis
    using d(1) by (simp add: cur_delay_def w duration_cast_us_pos)
qed

lemma callback_Idle:
  assumes "scheduled_event s = Some ev" "Idle s"
  shows "delayCheckCallback now s =
           Some (s\<lparr>scheduled_event_start_time := now,
                   trace := trace s @ [(LoopThread, Evtimer_add ZeroTimeout)]\<rparr>)"
  using assms by (simp add: delayCheckCallback_def Idle_def act_def Let_def)

lemma callback_Waiting:
  assumes "scheduled_event s = Some ev" "Waiting s"
  shows "delayCheckCallback now s =
           Some (s\<lparr>delay_us :=
                     (if scheduled_event_start_time s < now
                      then delay_us s + cur_delay now (scheduled_event_start_time s)
                      else delay_us s),
                   scheduled_event_start_time := time_point_min,
                   trace := trace s @ [(LoopThread, Evtimer_add (CommonTimeout 1))]\<rparr>)"
  using assms by (simp add: delayCheckCallback_def Waiting_def act_def Let_def)

lemma callback_Waiting_steady:
  assumes "scheduled_event s = Some ev" "Waiting s"
    and st: "scheduled_event_start_time s \<le> now"
      "now - scheduled_event_start_time s \<le> time_point_max"
  shows "delayCheckCallback now s =
           Some (s\<lparr>delay_us :=
                     delay_us s + word_of_int ((now - scheduled_event_start_time s) div 1000),
                   scheduled_event_start_time := time_point_min,
                   trace := trace s @ [(LoopThread, Evtimer_add (CommonTimeout 1))]\<rparr>)"
proof (cases "scheduled_event_start_time s < now")
  case True
  then show ?thesis
    using assms(1,2) by (simp add: callback_Waiting cur_delay_steady [OF st])
next
  case False
  then have "now = scheduled_event_start_time s"
    using st by simp
  then show ?thesis
    using assms(1,2) by (simp add: callback_Waiting)
qed

lemma history_hd: "history ts s = s # tl (history ts s)"
  by (cases ts) simp_all

lemma callback_flips:
  assumes "scheduled_event s = Some ev" "time_point_min < t"
  shows "\<exists>s'. delayCheckCallback t s = Some s' \<and> scheduled_event s' = Some ev \<and>
              Idle s' = Waiting s"
proof (cases "Waiting s")
  case True
  then show ?thesis
    using assms by (simp add: callback_Waiting [OF assms(1) True] Idle_def)
next
  case False
  then have "Idle s"
    by (simp add: Idle_def Waiting_def)
  then show ?thesis
    using assms False by (simp add: callback_Idle [OF assms(1)] Idle_def)
qed

lemma history_alternates:
  assumes "scheduled_event s = Some ev" "list_all (\<lambda>t. time_point_min < t) ts"
  shows "length (history ts s) = Suc (length ts) \<and>
         successively (\<lambda>a b. Idle b = Waiting a) (history ts s)"
  using assms
proof (induction ts arbitrary: s)
  case Nil
  then show ?case by simp
next
  case (Cons t ts)
  obtain s' where step: "delayCheckCallback t s = Some s'" "scheduled_event s' = Some ev"
    "Idle s' = Waiting s"
    using callback_flips [of s ev t] Cons.prems by auto
  have ih: "length (history ts s') = Suc (length ts) \<and>
         successively (\<lambda>a b. Idle b = Waiting a) (history ts s')"
    using Cons.IH [OF step(2)] Cons.prems(2) by simp
  obtain rest where h: "history ts s' = s' # rest"
    using history_hd [of ts s'] by blast
  show ?case
    using ih step(3) by (simp add: step(1) h)
qed

text \<open>
  C3: while the event of the monitor exists and the clock is steady, the callback
  alternates between two states. Idle (no start time recorded): it records the reading
  as the start time, adds the timer with the zero timeout, changes nothing else and is
  Waiting afterwards. Waiting (a start time is recorded): it adds the elapsed time since
  the start, in whole microseconds, to \<open>delay_us\<close>, adds the timer with the common
  timeout of one second, clears the start time, changes nothing else and is Idle
  afterwards. Over any number of callbacks in a row, at readings \<open>ts\<close> that are not the
  mark for "no start time", every callback returns and each state is Idle exactly when
  the one before it was Waiting.
\<close>

theorem delayCheckCallback_alternates:
  assumes "scheduled_event s = Some ev" "steady_reading s now"
  shows "(Idle s \<longrightarrow>
            delayCheckCallback now s =
              Some (s\<lparr>scheduled_event_start_time := now,
                      trace := trace s @ [(LoopThread, Evtimer_add ZeroTimeout)]\<rparr>) \<and>
            map_option Waiting (delayCheckCallback now s) = Some True) \<and>
         (Waiting s \<longrightarrow>
            delayCheckCallback now s =
              Some (s\<lparr>delay_us :=
                        delay_us s + word_of_int ((now - scheduled_event_start_time s) div 1000),
                      scheduled_event_start_time := time_point_min,
                      trace := trace s @ [(LoopThread, Evtimer_add (CommonTimeout 1))]\<rparr>) \<and>
            map_option Idle (delayCheckCallback now s) = Some True) \<and>
         (list_all (\<lambda>t. time_point_min < t) ts \<longrightarrow>
            length (history ts s) = Suc (length ts) \<and>
            successively (\<lambda>a b. Idle b = Waiting a) (history ts s))"
proof (intro conjI impI)
  assume "Idle s"
  then show eq: "delayCheckCallback now s =
              Some (s\<lparr>scheduled_event_start_time := now,
                      trace := trace s @ [(LoopThread, Evtimer_add ZeroTimeout)]\<rparr>)"
    using assms(1) by (rule callback_Idle [rotated])
  show "map_option Waiting (delayCheckCallback now s) = Some True"
    using assms(2) by (simp add: eq Waiting_def steady_reading_def)
next
  assume w: "Waiting s"
  then have st: "scheduled_event_start_time s \<le> now"
    "now - scheduled_event_start_time s \<le> time_point_max"
    using assms by (simp_all add: steady_reading_def)
  show eq: "delayCheckCallback now s =
              Some (s\<lparr>delay_us :=
                        delay_us s + word_of_int ((now - scheduled_event_start_time s) div 1000),
                      scheduled_event_start_time := time_point_min,
                      trace := trace s @ [(LoopThread, Evtimer_add (CommonTimeout 1))]\<rparr>)"
    using assms(1) w st by (rule callback_Waiting_steady)
  show "map_option Idle (delayCheckCallback now s) = Some True"
    by (simp add: eq Idle_def)
next
  assume "list_all (\<lambda>t. time_point_min < t) ts"
  then show "length (history ts s) = Suc (length ts)"
    "successively (\<lambda>a b. Idle b = Waiting a) (history ts s)"
    using history_alternates [OF assms(1)] by simp_all
qed

text \<open>Two callbacks in a row on a new monitor: the first, at 1000 ns, finds it Idle;
  the second, at 3500 ns, finds it Waiting and adds 2 microseconds.\<close>

theorem delayCheckCallback_alternates_witness:
  "scheduled_event (fresh\<lparr>scheduled_event := Some The_Event\<rparr>) = Some The_Event \<and>
   steady_reading (fresh\<lparr>scheduled_event := Some The_Event\<rparr>) 1000 \<and>
   Idle (fresh\<lparr>scheduled_event := Some The_Event\<rparr>) \<and>
   delayCheckCallback 1000 (fresh\<lparr>scheduled_event := Some The_Event\<rparr>) =
     Some (fresh\<lparr>scheduled_event := Some The_Event, scheduled_event_start_time := 1000,
                  trace := [(LoopThread, Evtimer_add ZeroTimeout)]\<rparr>) \<and>
   steady_reading
     (fresh\<lparr>scheduled_event := Some The_Event, scheduled_event_start_time := 1000\<rparr>) 3500 \<and>
   Waiting (fresh\<lparr>scheduled_event := Some The_Event, scheduled_event_start_time := 1000\<rparr>) \<and>
   delayCheckCallback 3500
       (fresh\<lparr>scheduled_event := Some The_Event, scheduled_event_start_time := 1000\<rparr>) =
     Some (fresh\<lparr>scheduled_event := Some The_Event, delay_us := 2,
                  trace := [(LoopThread, Evtimer_add (CommonTimeout 1))]\<rparr>) \<and>
   list_all (\<lambda>t. time_point_min < t) [1000, 3500, 1000000] \<and>
   map Idle (history [1000, 3500, 1000000] (fresh\<lparr>scheduled_event := Some The_Event\<rparr>)) =
     [True, False, True, False]"
proof -
  let ?s = "fresh\<lparr>scheduled_event := Some The_Event\<rparr>"
  let ?s' = "fresh\<lparr>scheduled_event := Some The_Event, scheduled_event_start_time := 1000\<rparr>"
  have h: "scheduled_event ?s = Some The_Event" "steady_reading ?s 1000"
    by (simp_all add: fresh_def steady_reading_def Waiting_def time_point_min_def
        time_point_max_def)
  have h': "scheduled_event ?s' = Some The_Event" "steady_reading ?s' 3500"
    by (simp_all add: fresh_def steady_reading_def Waiting_def time_point_min_def
        time_point_max_def)
  have i: "Idle ?s" "Waiting ?s'"
    by (simp_all add: fresh_def Idle_def Waiting_def time_point_min_def)
  have l: "list_all (\<lambda>t. time_point_min < t) [1000, 3500, 1000000]"
    by (simp add: time_point_min_def)
  have a: "map Idle (history [1000, 3500, 1000000] ?s) = [True, False, True, False]"
    by (simp add: fresh_def delayCheckCallback_def act_def Let_def Idle_def time_point_min_def)
  show ?thesis
    using h h' i l a
      delayCheckCallback_alternates [OF h, of "[1000, 3500, 1000000]"]
      delayCheckCallback_alternates [OF h', of "[]"]
    by (simp add: fresh_def)
qed

lemma uint_add_small:
  fixes d :: "64 word"
  assumes "0 \<le> x" "uint d + x < 2 ^ 64"
  shows "uint (d + word_of_int x) = uint d + x"
proof -
  have "uint (d + word_of_int x) = (uint d + x mod 2 ^ 64) mod 2 ^ 64"
    by (simp add: uint_word_ariths uint_word_of_int)
  moreover have "x < 2 ^ 64"
    using assms by (smt (verit) uint_ge_0)
  ultimately show ?thesis
    using assms by simp
qed

lemma callback_step:
  assumes inv: "mon_inv lo cur s" and t: "cur \<le> t" "t \<le> hi" "time_point_min < t"
    and span: "hi - lo \<le> time_point_max"
  shows "\<exists>s'. delayCheckCallback t s = Some s' \<and> delay_us s \<le> delay_us s' \<and> mon_inv lo t s'"
proof -
  obtain ev where ev: "scheduled_event s = Some ev"
    using inv by (auto simp: mon_inv_def)
  show ?thesis
  proof (cases "Waiting s")
    case False
    then have "Idle s"
      by (simp add: Idle_def Waiting_def)
    then show ?thesis
      using inv t False ev by (simp add: callback_Idle [OF ev] mon_inv_def Waiting_def)
  next
    case True
    let ?st = "scheduled_event_start_time s"
    have b: "lo \<le> ?st" "?st \<le> cur" "1000 * uint (delay_us s) \<le> ?st - lo"
      using inv True by (simp_all add: mon_inv_def)
    have st: "?st \<le> t" "t - ?st \<le> time_point_max"
      using b t span by simp_all
    let ?x = "(t - ?st) div 1000"
    note eq = callback_Waiting_steady [OF ev True st]
    have x0: "0 \<le> ?x"
      using st(1) by simp
    have "1000 * ?x = (t - ?st) - (t - ?st) mod 1000"
      by (simp add: minus_mod_eq_mult_div)
    moreover have "0 \<le> (t - ?st) mod 1000"
      by simp
    ultimately have x1: "1000 * ?x \<le> t - ?st"
      by linarith
    have sum: "1000 * (uint (delay_us s) + ?x) \<le> t - lo"
      using b(3) x1 by simp
    have "t - lo \<le> time_point_max"
      using t span by simp
    then have "uint (delay_us s) + ?x < 2 ^ 64"
      using sum by (simp add: time_point_max_def)
    then have u: "uint (delay_us s + word_of_int ?x) = uint (delay_us s) + ?x"
      using x0 by (rule uint_add_small [rotated])
    have le: "delay_us s \<le> delay_us s + word_of_int ?x"
      using u x0 by (simp add: word_le_def)
    have "mon_inv lo t (s\<lparr>delay_us := delay_us s + word_of_int ?x,
                   scheduled_event_start_time := time_point_min,
                   trace := trace s @ [(LoopThread, Evtimer_add (CommonTimeout 1))]\<rparr>)"
      using sum u b t ev by (simp add: mon_inv_def Waiting_def)
    then show ?thesis
      using le by (simp add: eq)
  qed
qed

lemma history_sorted:
  assumes "sorted ts" "\<forall>t\<in>set ts. cur \<le> t \<and> t \<le> hi \<and> time_point_min < t"
    "hi - lo \<le> time_point_max" "mon_inv lo cur s"
  shows "length (history ts s) = Suc (length ts) \<and> sorted (map delay_us (history ts s))"
  using assms
proof (induction ts arbitrary: cur s)
  case Nil
  then show ?case by simp
next
  case (Cons t ts)
  obtain s' where step: "delayCheckCallback t s = Some s'" "delay_us s \<le> delay_us s'"
    "mon_inv lo t s'"
    using callback_step [of lo cur s t hi] Cons.prems by auto
  have ih: "length (history ts s') = Suc (length ts) \<and> sorted (map delay_us (history ts s'))"
  proof (rule Cons.IH [of t])
    show "sorted ts"
      using Cons.prems(1) by simp
    show "\<forall>u\<in>set ts. t \<le> u \<and> u \<le> hi \<and> time_point_min < u"
      using Cons.prems(1,2) by auto
    show "hi - lo \<le> time_point_max"
      by (rule Cons.prems(3))
    show "mon_inv lo t s'"
      by (rule step(3))
  qed
  obtain rest where h: "history ts s' = s' # rest"
    using history_hd [of ts s'] by blast
  show ?case
    using ih step(2) by (auto simp: step(1) h)
qed

lemma sorted_hd_le: "sorted (ts :: int list) \<Longrightarrow> t \<in> set ts \<Longrightarrow> hd ts \<le> t"
  by (cases ts) auto

lemma sorted_le_last: "sorted (ts :: int list) \<Longrightarrow> t \<in> set ts \<Longrightarrow> t \<le> last ts"
  by (induction ts) auto

text \<open>
  C4: take a monitor whose event exists, that is Idle and has its counter at zero, and
  let its callback fire at the readings of a steady clock, however many. Every callback
  returns, and the values of \<open>delay_us\<close> before, between and after the callbacks never
  decrease. For any callback on any state, \<open>delay_us\<close> changes only if a start time is
  recorded and the reading is after it: elapsed time of zero or less leaves the counter
  as it is.
\<close>

theorem delay_us_never_decreases:
  assumes "scheduled_event s = Some ev" "steady_clock ts" "Idle s" "delay_us s = 0"
  shows "length (history ts s) = Suc (length ts) \<and>
         sorted (map delay_us (history ts s)) \<and>
         (delayCheckCallback now s1 = Some s2 \<longrightarrow> delay_us s2 \<noteq> delay_us s1 \<longrightarrow>
            Waiting s1 \<and> scheduled_event_start_time s1 < now)"
proof -
  have step: "delayCheckCallback now s1 = Some s2 \<longrightarrow> delay_us s2 \<noteq> delay_us s1 \<longrightarrow>
            Waiting s1 \<and> scheduled_event_start_time s1 < now"
    by (auto simp: delayCheckCallback_def Waiting_def act_def Let_def
        split: option.splits if_splits)
  have "length (history ts s) = Suc (length ts) \<and> sorted (map delay_us (history ts s))"
  proof (cases ts)
    case Nil
    then show ?thesis by simp
  next
    case (Cons t ts')
    show ?thesis
    proof (rule history_sorted [of ts "hd ts" "last ts" "hd ts"])
      show "sorted ts"
        using assms(2) by (simp add: steady_clock_def)
      show "\<forall>t\<in>set ts. hd ts \<le> t \<and> t \<le> last ts \<and> time_point_min < t"
        using assms(2) by (simp add: steady_clock_def sorted_hd_le sorted_le_last)
      show "last ts - hd ts \<le> time_point_max"
        using assms(2) Cons by (simp add: steady_clock_def)
      show "mon_inv (hd ts) (hd ts) s"
        using assms(1,3,4) by (simp add: mon_inv_def Idle_def Waiting_def)
    qed
  qed
  then show ?thesis
    using step by simp
qed

text \<open>Four callbacks, at 1000, 2500, 1000000 and 1003001 ns: the counter reads 0, 0, 1,
  1 and 4 microseconds.\<close>

theorem delay_us_never_decreases_witness:
  "scheduled_event (fresh\<lparr>scheduled_event := Some The_Event\<rparr>) = Some The_Event \<and>
   steady_clock [1000, 2500, 1000000, 1003001] \<and>
   Idle (fresh\<lparr>scheduled_event := Some The_Event\<rparr>) \<and>
   delay_us (fresh\<lparr>scheduled_event := Some The_Event\<rparr>) = 0 \<and>
   length (history [1000, 2500, 1000000, 1003001]
             (fresh\<lparr>scheduled_event := Some The_Event\<rparr>)) = 5 \<and>
   sorted (map delay_us (history [1000, 2500, 1000000, 1003001]
                           (fresh\<lparr>scheduled_event := Some The_Event\<rparr>))) \<and>
   map delay_us (history [1000, 2500, 1000000, 1003001]
                   (fresh\<lparr>scheduled_event := Some The_Event\<rparr>)) = [0, 0, 1, 1, 4]"
proof -
  let ?s = "fresh\<lparr>scheduled_event := Some The_Event\<rparr>"
  have h: "scheduled_event ?s = Some The_Event"
    "steady_clock [1000, 2500, 1000000, 1003001]"
    "Idle ?s"
    "delay_us ?s = 0"
    by (simp_all add: fresh_def steady_clock_def Idle_def time_point_min_def
        time_point_max_def)
  have v: "map delay_us (history [1000, 2500, 1000000, 1003001] ?s) = [0, 0, 1, 1, 4]"
    by (simp add: fresh_def delayCheckCallback_def act_def Let_def time_point_min_def
        cur_delay_def wrap_int64_def duration_cast_us_def)
  show ?thesis
    using h v delay_us_never_decreases [OF h, of 0 fresh fresh] by simp
qed

text \<open>
  C9: when the callback runs with a start time recorded and the reading of the clock
  is not after that start time, \<open>delay_us\<close> is left as it is, and so is everything else
  but two things: the timer is added with the common timeout of one second, and the
  start time is cleared, which makes the monitor Idle.
\<close>

theorem delayCheckCallback_reading_not_after_start:
  assumes "scheduled_event s = Some ev" "Waiting s" "\<not> scheduled_event_start_time s < now"
  shows "delayCheckCallback now s =
           Some (s\<lparr>scheduled_event_start_time := time_point_min,
                   trace := trace s @ [(LoopThread, Evtimer_add (CommonTimeout 1))]\<rparr>) \<and>
         map_option delay_us (delayCheckCallback now s) = Some (delay_us s) \<and>
         map_option Idle (delayCheckCallback now s) = Some True"
  using assms by (simp add: callback_Waiting Idle_def)

text \<open>A reading of 4000 ns with the start time at 5000 ns.\<close>

theorem delayCheckCallback_reading_not_after_start_witness:
  "scheduled_event
     (fresh\<lparr>scheduled_event := Some The_Event, scheduled_event_start_time := 5000,
            delay_us := 7\<rparr>) = Some The_Event \<and>
   Waiting
     (fresh\<lparr>scheduled_event := Some The_Event, scheduled_event_start_time := 5000,
            delay_us := 7\<rparr>) \<and>
   \<not> scheduled_event_start_time
       (fresh\<lparr>scheduled_event := Some The_Event, scheduled_event_start_time := 5000,
              delay_us := 7\<rparr>) < 4000 \<and>
   delayCheckCallback 4000
       (fresh\<lparr>scheduled_event := Some The_Event, scheduled_event_start_time := 5000,
              delay_us := 7\<rparr>) =
     Some (fresh\<lparr>scheduled_event := Some The_Event, delay_us := 7,
                  trace := [(LoopThread, Evtimer_add (CommonTimeout 1))]\<rparr>)"
  using delayCheckCallback_reading_not_after_start
    [of "fresh\<lparr>scheduled_event := Some The_Event, scheduled_event_start_time := 5000,
               delay_us := 7\<rparr>" The_Event 4000]
  by (simp add: Waiting_def fresh_def time_point_min_def)

section \<open>Starting up\<close>

lemmas init_unfold =
  init_def createEventBase_def loopOnce_def run_func_def bootstrap_def
  act_def Let_def tq_add_def tq_addWithPriority_def tq_accepts_def TaskQueue_new_def
  tq_setCloseEventLoopOnShutdown_def

lemma init_no_base:
  assumes "evbase_init e \<noteq> EvBase_OK"
  shows "init e cap rpi s =
           (creation_status (evbase_init e),
            s\<lparr>tid := gettid e, base := None,
              err := (err s)(LoopThread := creation_status (evbase_init e)),
              trace := trace s @ map (Pair LoopThread) (init_actions e cap rpi s)\<rparr>)"
  using assms
  by (cases "evbase_init e") (simp_all add: init_unfold init_actions_def creation_status_def)

lemma init_not_drained:
  assumes "evbase_init e = EvBase_OK" "\<not> (loop_once_drains e \<and> 0 < cap)"
  shows "init e cap rpi s =
           (if scheduled_event s = None then INTERNAL else OK,
            s\<lparr>tid := gettid e, base := Some The_EvBase,
              task_queue := Some \<lparr>event_base = The_EvBase,
                items = (if 0 < cap then [(LO_PRI, Bootstrap)] else []),
                capacity = cap,
                requests_per_iteration = rpi, close_event_loop_on_shutdown = True,
                shutdown_signaled = False\<rparr>,
              trace := trace s @ map (Pair LoopThread) (init_actions e cap rpi s)\<rparr>)"
  using assms by (simp add: init_unfold init_actions_def)

lemma init_drained:
  assumes "evbase_init e = EvBase_OK" "loop_once_drains e" "0 < cap"
  shows "init e cap rpi s =
           (if event_created e then OK else INTERNAL,
            s\<lparr>tid := gettid e, base := Some The_EvBase,
              task_queue := Some \<lparr>event_base = The_EvBase, items = [], capacity = cap,
                requests_per_iteration = rpi, close_event_loop_on_shutdown = True,
                shutdown_signaled = False\<rparr>,
              scheduled_event := (if event_created e then Some The_Event else None),
              thisThreadLoop := (thisThreadLoop s)(LoopThread := Some This),
              trace := trace s @ map (Pair LoopThread) (init_actions e cap rpi s)\<rparr>)"
  using assms by (simp add: init_unfold init_actions_def)

lemma init_trace:
  "trace (snd (init e cap rpi s)) = trace s @ map (Pair LoopThread) (init_actions e cap rpi s)"
proof (cases "evbase_init e = EvBase_OK")
  case False
  then show ?thesis by (simp add: init_no_base)
next
  case True
  then show ?thesis
    by (cases "loop_once_drains e \<and> 0 < cap") (simp_all add: init_not_drained init_drained)
qed

lemma init_actions_are: "a \<in> set (init_actions e cap rpi s) \<Longrightarrow> init_action a"
  by (cases "evbase_init e") (auto simp: init_actions_def split: if_splits)

lemma init_status:
  assumes "scheduled_event s = None"
  shows "fst (init e cap rpi s) =
     (case evbase_init e of
        EvBase_OK \<Rightarrow>
          if loop_once_drains e \<and> event_created e \<and> 0 < cap then OK else INTERNAL
      | EvBase_NO_MEM \<Rightarrow> NOMEM
      | EvBase_INVALID_PRIORITY \<Rightarrow> SYSLIMIT
      | EvBase_OTHER \<Rightarrow> INTERNAL)"
proof (cases "evbase_init e = EvBase_OK")
  case False
  then show ?thesis
    by (cases "evbase_init e") (simp_all add: init_no_base creation_status_def)
next
  case True
  then show ?thesis
    using assms
    by (cases "loop_once_drains e \<and> 0 < cap") (auto simp: init_not_drained init_drained)
qed

lemma init_timer_added:
  assumes "evbase_init e = EvBase_OK"
  shows "((LoopThread, Evtimer_add (CommonTimeout 1)) \<in> set (performed s (snd (init e cap rpi s)))) =
         (loop_once_drains e \<and> event_created e \<and> 0 < cap)"
  using assms by (auto simp: performed_def init_trace init_actions_def)

lemma init_OK_env:
  assumes "scheduled_event s = None" "fst (init e cap rpi s) = OK"
  shows "evbase_init e = EvBase_OK \<and> loop_once_drains e \<and> event_created e \<and> 0 < cap"
  using assms(2) unfolding init_status [OF assms(1)]
  by (cases "evbase_init e") (simp_all split: if_splits)

lemma init_OK:
  assumes "scheduled_event s = None" "fst (init e cap rpi s) = OK"
  shows "thisThreadLoop (snd (init e cap rpi s)) LoopThread = Some This"
    "base (snd (init e cap rpi s)) = Some The_EvBase"
    "scheduled_event (snd (init e cap rpi s)) = Some The_Event"
    "map_option close_event_loop_on_shutdown (task_queue (snd (init e cap rpi s))) = Some True"
    "Set_thisThreadLoop \<in> set (init_actions e cap rpi s)"
    "Evtimer_add (CommonTimeout 1) \<in> set (init_actions e cap rpi s)"
  using init_OK_env [OF assms]
  by (simp_all add: init_drained init_actions_def)

section \<open>The run loop\<close>

lemma run_returns:
  assumes "base s = Some b" "loop_exit e = Some st"
  shows "run e s =
           Some (Returned (s\<lparr>scheduled_event := None,
                   trace := trace s @ (LoopThread, EvBase_loop) #
                     (if st = EvBase_OK then []
                      else [(LoopThread, Ld_error ''EvBase::loop() exited abnormally'')]) @
                     [(LoopThread, Event_reset)]\<rparr>))"
  using assms by (simp add: run_def act_def Let_def)

lemma run_blocks:
  assumes "base s = Some b" "loop_exit e = None"
  shows "run e s = Some (Never_returns (s\<lparr>trace := trace s @ [(LoopThread, EvBase_loop)]\<rparr>))"
  using assms by (simp add: run_def act_def Let_def)

lemma loop_step_Before_run:
  assumes "loop_at c = Before_run" "base (w c) = Some b"
  shows "loop_step e cap rpi c =
           (case loop_exit e of
              None \<Rightarrow> c\<lparr>w := (w c)\<lparr>trace := trace (w c) @ [loop_call]\<rparr>, loop_at := In_loop\<rparr>
            | Some st \<Rightarrow>
                c\<lparr>w := (w c)\<lparr>scheduled_event := None,
                       trace := trace (w c) @ loop_call #
                         (if st = EvBase_OK then []
                          else [(LoopThread, Ld_error ''EvBase::loop() exited abnormally'')]) @
                         [(LoopThread, Event_reset), thread_exit]\<rparr>,
                  loop_at := Exited\<rparr>)"
  using assms
  by (cases "loop_exit e")
     (simp_all add: loop_step_def run_returns [OF assms(2)] run_blocks [OF assms(2)] act_def)

text \<open>
  C7: on an EventLoop that has its base, \<open>run\<close> calls \<open>EvBase::loop\<close> once and
  returns when and only when that call returns. If the call returns with a status other
  than OK, the one thing \<open>run\<close> does about it is to log an error. On both ways out it
  then resets \<open>scheduled_event\<close>, which releases the timer event of the monitor, and
  returns; the closure of the thread returns right after (\<open>Thread_exit\<close>), and the
  thread has no further step.
\<close>

theorem run_until_loop_exits:
  assumes "base s = Some b"
  shows "(loop_exit e = None \<longrightarrow>
            run e s = Some (Never_returns (s\<lparr>trace := trace s @ [(LoopThread, EvBase_loop)]\<rparr>))) \<and>
         (loop_exit e = Some st \<longrightarrow>
            run e s =
              Some (Returned (s\<lparr>scheduled_event := None,
                      trace := trace s @ (LoopThread, EvBase_loop) #
                        (if st = EvBase_OK then []
                         else [(LoopThread, Ld_error ''EvBase::loop() exited abnormally'')]) @
                        [(LoopThread, Event_reset)]\<rparr>))) \<and>
         (loop_exit e = Some st \<longrightarrow> loop_at c = Before_run \<longrightarrow> w c = s \<longrightarrow>
            loop_at (loop_step e cap rpi c) = Exited \<and>
            scheduled_event (w (loop_step e cap rpi c)) = None \<and>
            performed s (w (loop_step e cap rpi c)) =
              (LoopThread, EvBase_loop) #
              (if st = EvBase_OK then []
               else [(LoopThread, Ld_error ''EvBase::loop() exited abnormally'')]) @
              [(LoopThread, Event_reset), (LoopThread, Thread_exit)] \<and>
            loop_step e cap rpi (loop_step e cap rpi c) = loop_step e cap rpi c)"
  using assms
  by (simp add: run_returns [OF assms] run_blocks [OF assms] loop_step_def performed_def act_def)

text \<open>A loop whose \<open>EvBase::loop\<close> returns with a status other than OK.\<close>

theorem run_until_loop_exits_witness:
  "base (fresh\<lparr>base := Some The_EvBase, scheduled_event := Some The_Event\<rparr>) = Some The_EvBase \<and>
   run \<lparr>gettid = 4711, evbase_init = EvBase_OK, loop_once_drains = True, event_created = True,
        loop_exit = Some EvBase_OTHER\<rparr>
       (fresh\<lparr>base := Some The_EvBase, scheduled_event := Some The_Event\<rparr>) =
     Some (Returned
       (fresh\<lparr>base := Some The_EvBase,
              trace := [(LoopThread, EvBase_loop),
                        (LoopThread, Ld_error ''EvBase::loop() exited abnormally''),
                        (LoopThread, Event_reset)]\<rparr>)) \<and>
   loop_step
       \<lparr>gettid = 4711, evbase_init = EvBase_OK, loop_once_drains = True, event_created = True,
        loop_exit = Some EvBase_OTHER\<rparr> 16 [8, 4, 2]
       \<lparr>w = fresh\<lparr>base := Some The_EvBase, scheduled_event := Some The_Event\<rparr>,
        initialized = 0, init_result = OK, res = Some OK, caller_at = Constructed,
        loop_at = Before_run\<rparr> =
     \<lparr>w = fresh\<lparr>base := Some The_EvBase,
                trace := [(LoopThread, EvBase_loop),
                          (LoopThread, Ld_error ''EvBase::loop() exited abnormally''),
                          (LoopThread, Event_reset), (LoopThread, Thread_exit)]\<rparr>,
      initialized = 0, init_result = OK, res = Some OK, caller_at = Constructed,
      loop_at = Exited\<rparr>"
proof -
  let ?e = "\<lparr>gettid = 4711, evbase_init = EvBase_OK, loop_once_drains = True,
             event_created = True, loop_exit = Some EvBase_OTHER\<rparr>"
  let ?s = "fresh\<lparr>base := Some The_EvBase, scheduled_event := Some The_Event\<rparr>"
  let ?c = "\<lparr>w = ?s, initialized = 0, init_result = OK, res = Some OK,
             caller_at = Constructed, loop_at = Before_run\<rparr>"
  have b: "base ?s = Some The_EvBase"
    by simp
  have l: "loop_step ?e 16 [8, 4, 2] ?c =
     \<lparr>w = fresh\<lparr>base := Some The_EvBase,
                trace := [(LoopThread, EvBase_loop),
                          (LoopThread, Ld_error ''EvBase::loop() exited abnormally''),
                          (LoopThread, Event_reset), (LoopThread, Thread_exit)]\<rparr>,
      initialized = 0, init_result = OK, res = Some OK, caller_at = Constructed,
      loop_at = Exited\<rparr>"
    by (simp add: loop_step_def run_def act_def fresh_def)
  show ?thesis
    using b l
      run_until_loop_exits [OF b, where e = ?e and st = EvBase_OTHER and c = ?c and cap = 16
        and rpi = "[8, 4, 2]"]
    by (simp add: fresh_def)
qed

section \<open>The destructor\<close>

text \<open>
  C5: the destructor checks that \<open>num_references\<close> is zero, and ends with a fault if it
  is not. When it is zero and the thread handle is not joinable, the destructor does
  nothing before the members are destroyed: no shutdown, no join. When it is zero and
  the handle is joinable (and the object has its task queue), the destructor shuts the
  queue down, then joins the thread, and only then are the members destroyed; the queue
  is left with its shutdown flag set and the handle is no longer joinable.
\<close>

theorem destructor_shutdown_then_join:
  "(num_references s \<noteq> 0 \<longrightarrow> destructor s = Inl Check_failed) \<and>
   (num_references s = 0 \<longrightarrow> \<not> thread_joinable s \<longrightarrow>
      destructor s = Inr (s\<lparr>trace := trace s @ [(Caller, Members_destroyed)]\<rparr>)) \<and>
   (num_references s = 0 \<longrightarrow> thread_joinable s \<longrightarrow> task_queue s = Some q \<longrightarrow>
      destructor s =
        Inr (s\<lparr>task_queue := Some (q\<lparr>shutdown_signaled := True\<rparr>),
               thread_joinable := False,
               trace := trace s @ [(Caller, TaskQueue_shutdown), (Caller, Thread_join),
                                   (Caller, Members_destroyed)]\<rparr>))"
  by (simp add: destructor_def act_def Let_def tq_shutdown_def)

text \<open>An object whose thread runs, one whose thread never started, and one that is
  still referenced.\<close>

theorem destructor_shutdown_then_join_witness:
  "destructor (fresh\<lparr>thread_joinable := True, task_queue := Some (TaskQueue_new The_EvBase 16 [8, 4, 2])\<rparr>) =
     Inr (fresh\<lparr>thread_joinable := False,
                 task_queue := Some ((TaskQueue_new The_EvBase 16 [8, 4, 2])\<lparr>shutdown_signaled := True\<rparr>),
                 trace := [(Caller, TaskQueue_shutdown), (Caller, Thread_join),
                           (Caller, Members_destroyed)]\<rparr>) \<and>
   destructor fresh = Inr (fresh\<lparr>trace := [(Caller, Members_destroyed)]\<rparr>) \<and>
   destructor (fresh\<lparr>num_references := 1\<rparr>) = Inl Check_failed"
  using destructor_shutdown_then_join
    [where s = "fresh\<lparr>thread_joinable := True, task_queue := Some (TaskQueue_new The_EvBase 16 [8, 4, 2])\<rparr>"
       and q = "TaskQueue_new The_EvBase 16 [8, 4, 2]"]
    destructor_shutdown_then_join [where s = fresh]
    destructor_shutdown_then_join [where s = "fresh\<lparr>num_references := 1\<rparr>"]
  by (simp add: fresh_def)

section \<open>The log\<close>

lemma precedes_append: "precedes a b tr \<Longrightarrow> precedes a b (tr @ ys)"
  by (auto simp: precedes_def takeWhile_append)

lemma precedes_snoc: "a \<in> set tr \<Longrightarrow> b \<notin> set tr \<Longrightarrow> precedes a b (tr @ [b])"
  by (simp add: precedes_def takeWhile_append)

lemma precedes_in_prefix:
  "a \<in> set xs \<Longrightarrow> b \<notin> set xs \<Longrightarrow> b \<in> set ys \<Longrightarrow> precedes a b (xs @ ys)"
  by (auto simp: precedes_def takeWhile_append)

lemma starts_with_refl: "starts_with xs xs"
  by (simp add: starts_with_def)

lemma starts_with_append:
  assumes "starts_with xs ys"
  shows "starts_with xs (ys @ zs)"
proof -
  have h: "take (length xs) ys = xs"
    using assms by (simp add: starts_with_def)
  have "length (take (length xs) ys) = length xs"
    by (simp add: h)
  then have "length xs \<le> length ys"
    by simp
  then show ?thesis
    by (simp add: starts_with_def h)
qed

lemma starts_with_split: "starts_with xs ys \<Longrightarrow> ys = xs @ drop (length xs) ys"
  by (metis append_take_drop_id starts_with_def)

section \<open>The construction\<close>

subsection \<open>The three states before the post\<close>

lemma spawn_world_facts:
  "trace (spawn_world name type enable w0) = [(Caller, Thread_spawn)]"
  "scheduled_event (spawn_world name type enable w0) = None"
  "thread_joinable (spawn_world name type enable w0)"
  "thread_type (spawn_world name type enable w0) = type"
  "thread_name (spawn_world name type enable w0) = name"
  by (simp_all add: spawn_world_def caller_step_def EventLoop_begin_def act_def)

lemma at_spawn_eq:
  "at_spawn name type enable w0 =
     \<lparr>w = spawn_world name type enable w0, initialized = 0, init_result = INTERNAL, res = None,
      caller_at = In_wait, loop_at = Before_init\<rparr>"
  by (simp add: at_spawn_def spawn_world_def caller_step_def EventLoop_begin_def)

lemma step_begin:
  "step e cap rpi t (EventLoop_begin name type enable w0) = EventLoop_begin name type enable w0 \<or>
   step e cap rpi t (EventLoop_begin name type enable w0) = at_spawn name type enable w0"
  by (cases t) (simp_all add: step_def at_spawn_def loop_step_def EventLoop_begin_def)

lemma step_at_spawn:
  "step e cap rpi t (at_spawn name type enable w0) = at_spawn name type enable w0 \<or>
   step e cap rpi t (at_spawn name type enable w0) = at_post e cap rpi name type enable w0"
  by (cases t)
     (simp_all add: step_def at_spawn_eq at_post_def loop_step_def caller_step_def split_beta)

lemma init_trace_members:
  assumes "x \<in> set (trace (snd (init e cap rpi (spawn_world name type enable w0))))"
  shows "x = (Caller, Thread_spawn) \<or> (fst x = LoopThread \<and> init_action (snd x))"
  using assms by (auto simp: init_trace spawn_world_facts dest: init_actions_are)

lemma not_in_init_trace:
  "sem_post \<notin> set (trace (snd (init e cap rpi (spawn_world name type enable w0))))"
  "sem_wait \<notin> set (trace (snd (init e cap rpi (spawn_world name type enable w0))))"
  "thread_join \<notin> set (trace (snd (init e cap rpi (spawn_world name type enable w0))))"
  "ctor_throw \<notin> set (trace (snd (init e cap rpi (spawn_world name type enable w0))))"
  "thread_exit \<notin> set (trace (snd (init e cap rpi (spawn_world name type enable w0))))"
  "loop_call \<notin> set (trace (snd (init e cap rpi (spawn_world name type enable w0))))"
  using init_trace_members [of _ e cap rpi name type enable w0] by fastforce+

lemma step_at_post:
  "step e cap rpi t (at_post e cap rpi name type enable w0) = at_post e cap rpi name type enable w0 \<or>
   post_inv (fst (init e cap rpi (spawn_world name type enable w0)))
     (snd (init e cap rpi (spawn_world name type enable w0)))
     (step e cap rpi t (at_post e cap rpi name type enable w0))"
proof (cases t)
  case Caller
  then show ?thesis
    by (simp add: step_def at_post_def caller_step_def)
next
  case LoopThread
  then show ?thesis
    by (simp add: step_def at_post_def loop_step_def post_inv_def inv_data_def inv_caller_def
        inv_loop_def act_def starts_with_refl not_in_init_trace)
qed

subsection \<open>The steps after the post\<close>

lemma caller_step_data:
  assumes "inv_data r wi c" "caller_at c \<noteq> Before_spawn"
  shows "inv_data r wi (caller_step c)"
  using assms
  by (cases "caller_at c") (simp_all add: inv_data_def caller_step_def act_def starts_with_append)

lemma caller_step_loop:
  assumes "inv_loop r c" "caller_at c \<noteq> Before_spawn"
  shows "inv_loop r (caller_step c)"
  using assms
  by (cases "caller_at c") (simp_all add: inv_loop_def caller_step_def act_def)

lemma caller_step_caller:
  assumes "inv_data r wi c" "inv_caller r c" "inv_loop r c"
  shows "inv_caller r (caller_step c)"
proof (cases "caller_at c")
  case Before_spawn
  then show ?thesis using assms(2) by (simp add: inv_caller_def)
next
  case In_wait
  then show ?thesis using assms(2) by (simp add: inv_caller_def caller_step_def act_def)
next
  case After_wait
  then show ?thesis using assms(1,2) by (simp add: inv_caller_def inv_data_def caller_step_def act_def)
next
  case In_join
  then show ?thesis using assms(2,3) 
    by (simp add: inv_caller_def inv_loop_def caller_step_def act_def precedes_snoc)
next
  case Before_throw
  then show ?thesis using assms(2) 
    by (simp add: inv_caller_def caller_step_def act_def precedes_snoc precedes_append)
next
  case Constructed
  then show ?thesis using assms(2) by (simp add: inv_caller_def caller_step_def)
next
  case Constructor_failed
  then show ?thesis using assms(2) by (simp add: inv_caller_def caller_step_def)
qed

lemma loop_step_post_phase:
  assumes "inv_data r wi c" "inv_caller r c" "inv_loop r c" "r = OK \<longrightarrow> base wi = Some The_EvBase"
  shows "inv_data r wi (loop_step e cap rpi c) \<and> inv_caller r (loop_step e cap rpi c) \<and>
         inv_loop r (loop_step e cap rpi c)"
proof (cases "loop_at c")
  case After_post
  have "inv_data r wi (loop_step e cap rpi c)"
    using assms(1) After_post
    by (simp add: inv_data_def loop_step_def act_def starts_with_append)
  moreover have "inv_caller r (loop_step e cap rpi c)"
    using assms(1,2,3) After_post
    by (auto simp: inv_caller_def inv_data_def inv_loop_def loop_step_def act_def precedes_append)
  moreover have "inv_loop r (loop_step e cap rpi c)"
    using assms(1,3) After_post
    by (simp add: inv_data_def inv_loop_def loop_step_def act_def)
  ultimately show ?thesis by simp
next
  case Before_run
  then have b: "base (w c) = Some The_EvBase"
    using assms(1,3,4) by (simp add: inv_data_def inv_loop_def)
  note eq = loop_step_Before_run [OF Before_run b]
  have "inv_data r wi (loop_step e cap rpi c)"
    using assms(1) by (cases "loop_exit e") (simp_all add: eq inv_data_def starts_with_append)
  moreover have "inv_caller r (loop_step e cap rpi c)"
    using assms(2) Before_run 
    by (cases "loop_exit e") (simp_all add: eq inv_caller_def precedes_append)
  moreover have "inv_loop r (loop_step e cap rpi c)"
    using assms(3) Before_run 
    by (cases "loop_exit e") (simp_all add: eq inv_loop_def)
  ultimately show ?thesis by simp
next
  case In_loop
  then show ?thesis using assms by (simp add: loop_step_def)
next
  case Exited
  then show ?thesis using assms by (simp add: loop_step_def)
next
  case Not_started
  then show ?thesis using assms by (simp add: loop_step_def)
next
  case Before_init
  then show ?thesis using assms(3) by (simp add: inv_loop_def)
next
  case Before_post
  then show ?thesis using assms(3) by (simp add: inv_loop_def)
next
  case Faulted
  then show ?thesis using assms by (simp add: loop_step_def)
qed

lemma init_base_OK:
  "fst (init e cap rpi (spawn_world name type enable w0)) = OK \<longrightarrow>
   base (snd (init e cap rpi (spawn_world name type enable w0))) = Some The_EvBase"
  using init_OK(2) [of "spawn_world name type enable w0" e cap rpi]
  by (simp add: spawn_world_facts)

lemma post_inv_step:
  assumes "post_inv (fst (init e cap rpi (spawn_world name type enable w0)))
        (snd (init e cap rpi (spawn_world name type enable w0))) c"
  shows "post_inv (fst (init e cap rpi (spawn_world name type enable w0)))
        (snd (init e cap rpi (spawn_world name type enable w0))) (step e cap rpi t c)"
proof -
  let ?r = "fst (init e cap rpi (spawn_world name type enable w0))"
  let ?wi = "snd (init e cap rpi (spawn_world name type enable w0))"
  have i: "inv_data ?r ?wi c" "inv_caller ?r c" "inv_loop ?r c"
    using assms by (simp_all add: post_inv_def)
  show ?thesis
  proof (cases t)
    case Caller
    have n: "caller_at c \<noteq> Before_spawn"
      using i(2) by (simp add: inv_caller_def)
    show ?thesis
      using caller_step_data [OF i(1) n] caller_step_loop [OF i(3) n] caller_step_caller [OF i]
      by (simp add: post_inv_def step_def Caller)
  next
    case LoopThread
    show ?thesis
      using loop_step_post_phase [OF i init_base_OK, of e cap rpi]
      by (simp add: post_inv_def step_def LoopThread)
  qed
qed

lemma construction_inv_step:
  assumes "construction_inv e cap rpi name type enable w0 c"
  shows "construction_inv e cap rpi name type enable w0 (step e cap rpi t c)"
  using assms step_begin [of e cap rpi t name type enable w0]
    step_at_spawn [of e cap rpi t name type enable w0]
    step_at_post [of e cap rpi t name type enable w0]
    post_inv_step [of e cap rpi name type enable w0 c t]
  unfolding construction_inv_def by metis

lemma construction_inv_exec:
  assumes "construction_inv e cap rpi name type enable w0 c"
  shows "construction_inv e cap rpi name type enable w0 (exec e cap rpi sched c)"
  using assms
  by (induction sched arbitrary: c) (simp_all add: construction_inv_step)

lemma construction_inv_construct:
  "construction_inv e cap rpi name type enable w0
     (EventLoop_construct e name type cap enable rpi w0 sched)"
  unfolding EventLoop_construct_def
  by (rule construction_inv_exec) (simp add: construction_inv_def)

lemma construction_cases:
  obtains (early) "trace (w (EventLoop_construct e name type cap enable rpi w0 sched)) = [] \<or>
        trace (w (EventLoop_construct e name type cap enable rpi w0 sched)) = [(Caller, Thread_spawn)] \<or>
        trace (w (EventLoop_construct e name type cap enable rpi w0 sched)) =
          trace (snd (init e cap rpi (spawn_world name type enable w0)))"
      "caller_at (EventLoop_construct e name type cap enable rpi w0 sched) = Before_spawn \<or>
       caller_at (EventLoop_construct e name type cap enable rpi w0 sched) = In_wait"
      "loop_at (EventLoop_construct e name type cap enable rpi w0 sched) = Not_started \<or>
       loop_at (EventLoop_construct e name type cap enable rpi w0 sched) = Before_init \<or>
       loop_at (EventLoop_construct e name type cap enable rpi w0 sched) = Before_post"
  | (late) "post_inv (fst (init e cap rpi (spawn_world name type enable w0)))
        (snd (init e cap rpi (spawn_world name type enable w0)))
        (EventLoop_construct e name type cap enable rpi w0 sched)"
proof -
  let ?c = "EventLoop_construct e name type cap enable rpi w0 sched"
  consider "?c = EventLoop_begin name type enable w0" | "?c = at_spawn name type enable w0"
    | "?c = at_post e cap rpi name type enable w0"
    | "post_inv (fst (init e cap rpi (spawn_world name type enable w0)))
        (snd (init e cap rpi (spawn_world name type enable w0))) ?c"
    using construction_inv_construct [of e cap rpi name type enable w0 sched]
    unfolding construction_inv_def by blast
  then show ?thesis
  proof cases
    case 1
    show ?thesis
      by (rule early) (simp_all add: 1 EventLoop_begin_def)
  next
    case 2
    show ?thesis
      by (rule early) (simp_all add: 2 at_spawn_eq spawn_world_facts)
  next
    case 3
    show ?thesis
      by (rule early) (simp_all add: 3 at_post_def)
  next
    case 4
    then show ?thesis by (rule late)
  qed
qed

lemma before_wait:
  assumes "post_inv (fst (init e cap rpi (spawn_world name type enable w0)))
        (snd (init e cap rpi (spawn_world name type enable w0))) c"
    and "x \<in> set (trace (snd (init e cap rpi (spawn_world name type enable w0))) @ [sem_post])"
    and "sem_wait \<in> set (trace (w c))"
  shows "precedes x sem_wait (trace (w c))"
proof -
  let ?wi = "snd (init e cap rpi (spawn_world name type enable w0))"
  have "starts_with (trace ?wi @ [sem_post]) (trace (w c))"
    using assms(1) by (simp add: post_inv_def inv_data_def)
  then have s: "trace (w c) = (trace ?wi @ [sem_post]) @ drop (length (trace ?wi @ [sem_post])) (trace (w c))"
    by (rule starts_with_split)
  have n: "sem_wait \<notin> set (trace ?wi @ [sem_post])"
    using not_in_init_trace(2) [of e cap rpi name type enable w0] by simp
  have "sem_wait \<in> set (drop (length (trace ?wi @ [sem_post])) (trace (w c)))"
    using assms(3) n by (subst (asm) s) simp
  then have "precedes x sem_wait
      ((trace ?wi @ [sem_post]) @ drop (length (trace ?wi @ [sem_post])) (trace (w c)))"
    using assms(2) n by (intro precedes_in_prefix)
  then show ?thesis
    using s by simp
qed

subsection \<open>The progress of the spawned thread\<close>

lemma exec_append:
  "exec e cap rpi (xs @ ys) c = exec e cap rpi ys (exec e cap rpi xs c)"
  by (induction xs arbitrary: c) simp_all

lemma exec_from_spawn:
  "exec e cap rpi sched (EventLoop_begin name type enable w0) =
     (if Caller \<in> set sched
      then exec e cap rpi (tl (dropWhile (\<lambda>t. t \<noteq> Caller) sched)) (at_spawn name type enable w0)
      else EventLoop_begin name type enable w0)"
proof (induction sched)
  case Nil
  show ?case by simp
next
  case (Cons t ts)
  show ?case
  proof (cases t)
    case Caller
    then show ?thesis
      by (simp add: step_def at_spawn_def)
  next
    case LoopThread
    have "step e cap rpi LoopThread (EventLoop_begin name type enable w0) =
        EventLoop_begin name type enable w0"
      by (simp add: step_def loop_step_def EventLoop_begin_def)
    then show ?thesis
      using Cons LoopThread by simp
  qed
qed

lemma thread_steps_tl:
  "count_list (tl (dropWhile (\<lambda>t. t \<noteq> Caller) sched)) LoopThread = thread_steps sched"
proof (cases "dropWhile (\<lambda>t. t \<noteq> Caller) sched")
  case Nil
  show ?thesis unfolding thread_steps_def Nil by simp
next
  case (Cons t ts)
  then have "t = Caller"
    using hd_dropWhile [of "\<lambda>t. t \<noteq> Caller" sched] by force
  then show ?thesis
    using Cons by (simp add: thread_steps_def)
qed

lemma construction_inv_from_spawn:
  "construction_inv e cap rpi name type enable w0
     (exec e cap rpi ts (at_spawn name type enable w0))"
  by (rule construction_inv_exec) (simp add: construction_inv_def)

lemma loop_at_caller_step:
  assumes "caller_at c \<noteq> Before_spawn"
  shows "loop_at (caller_step c) = loop_at c"
  using assms by (cases "caller_at c") (simp_all add: caller_step_def)

lemma loop_pc_after_Suc:
  "loop_pc_after e r (Suc n) =
     (case loop_pc_after e r n of
        Not_started \<Rightarrow> Not_started
      | Before_init \<Rightarrow> Before_post
      | Before_post \<Rightarrow> After_post
      | After_post \<Rightarrow> if r = OK then Before_run else Exited
      | Before_run \<Rightarrow> (case loop_exit e of None \<Rightarrow> In_loop | Some st \<Rightarrow> Exited)
      | In_loop \<Rightarrow> In_loop
      | Exited \<Rightarrow> Exited
      | Faulted \<Rightarrow> Faulted)"
  by (cases "loop_exit e") (auto simp: loop_pc_after_def)

lemma loop_at_loop_step:
  assumes "construction_inv e cap rpi name type enable w0 c"
  shows "loop_at (loop_step e cap rpi c) =
     (case loop_at c of
        Not_started \<Rightarrow> Not_started
      | Before_init \<Rightarrow> Before_post
      | Before_post \<Rightarrow> After_post
      | After_post \<Rightarrow>
          if fst (init e cap rpi (spawn_world name type enable w0)) = OK then Before_run
          else Exited
      | Before_run \<Rightarrow> (case loop_exit e of None \<Rightarrow> In_loop | Some st \<Rightarrow> Exited)
      | In_loop \<Rightarrow> In_loop
      | Exited \<Rightarrow> Exited
      | Faulted \<Rightarrow> Faulted)"
proof (cases "loop_at c")
  case After_post
  then have "post_inv (fst (init e cap rpi (spawn_world name type enable w0)))
        (snd (init e cap rpi (spawn_world name type enable w0))) c"
    using assms
    by (auto simp: construction_inv_def EventLoop_begin_def at_spawn_eq at_post_def)
  then have "res c = Some (fst (init e cap rpi (spawn_world name type enable w0)))"
    by (simp add: post_inv_def inv_data_def)
  then show ?thesis
    using After_post by (simp add: loop_step_def)
next
  case Before_run
  then have p: "post_inv (fst (init e cap rpi (spawn_world name type enable w0)))
        (snd (init e cap rpi (spawn_world name type enable w0))) c"
    using assms
    by (auto simp: construction_inv_def EventLoop_begin_def at_spawn_eq at_post_def)
  then have "fst (init e cap rpi (spawn_world name type enable w0)) = OK"
    using Before_run by (simp add: post_inv_def inv_loop_def)
  then have b: "base (w c) = Some The_EvBase"
    using p init_base_OK [of e cap rpi name type enable w0]
    by (simp add: post_inv_def inv_data_def)
  show ?thesis
    using Before_run
    by (cases "loop_exit e") (simp_all add: loop_step_Before_run [OF Before_run b])
qed (simp_all add: loop_step_def split_beta)

lemma loop_at_from_spawn:
  "loop_at (exec e cap rpi ts (at_spawn name type enable w0)) =
     loop_pc_after e (fst (init e cap rpi (spawn_world name type enable w0)))
       (count_list ts LoopThread)"
proof (induction ts rule: rev_induct)
  case Nil
  show ?case
    by (simp add: at_spawn_eq loop_pc_after_def)
next
  case (snoc t ts)
  let ?c = "exec e cap rpi ts (at_spawn name type enable w0)"
  let ?r = "fst (init e cap rpi (spawn_world name type enable w0))"
  have inv: "construction_inv e cap rpi name type enable w0 ?c"
    by (rule construction_inv_from_spawn)
  show ?case
  proof (cases t)
    case Caller
    have "loop_at ?c \<noteq> Not_started"
      by (simp add: snoc loop_pc_after_def split: option.split)
    then have "caller_at ?c \<noteq> Before_spawn"
      using inv
      by (auto simp: construction_inv_def EventLoop_begin_def at_spawn_eq at_post_def
          post_inv_def inv_caller_def)
    then show ?thesis
      using snoc Caller by (simp add: exec_append step_def loop_at_caller_step)
  next
    case LoopThread
    then show ?thesis
      using snoc by (simp add: exec_append step_def loop_at_loop_step [OF inv] loop_pc_after_Suc)
  qed
qed

lemma loop_at_construct:
  "loop_at (EventLoop_construct e name type cap enable rpi w0 sched) =
     (if Caller \<in> set sched
      then loop_pc_after e (fst (init e cap rpi (spawn_world name type enable w0)))
             (thread_steps sched)
      else Not_started)"
  by (simp add: EventLoop_construct_def exec_from_spawn loop_at_from_spawn thread_steps_tl)
     (simp add: EventLoop_begin_def)

lemma thread_steps_pos:
  assumes "0 < thread_steps sched"
  shows "Caller \<in> set sched"
proof (rule ccontr)
  assume "Caller \<notin> set sched"
  then have d: "dropWhile (\<lambda>t. t \<noteq> Caller) sched = []"
    by auto
  have "thread_steps sched = 0"
    unfolding thread_steps_def d by simp
  then show False
    using assms by simp
qed

subsection \<open>Two schedules that run the construction to its end\<close>

lemma failing_schedule:
  assumes "fst (init e cap rpi (spawn_world name type enable w0)) \<noteq> OK"
  shows "caller_at (EventLoop_construct e name type cap enable rpi w0
           [Caller, LoopThread, LoopThread, LoopThread, Caller, Caller, Caller, Caller]) =
         Constructor_failed"
  using assms
  by (simp add: EventLoop_construct_def step_def caller_step_def loop_step_def spawn_world_def
      split_beta EventLoop_begin_def act_def)

lemma succeeding_schedule:
  assumes "fst (init e cap rpi (spawn_world name type enable w0)) = OK"
  shows "caller_at (EventLoop_construct e name type cap enable rpi w0
           [Caller, LoopThread, LoopThread, Caller, Caller]) = Constructed"
  using assms
  by (simp add: EventLoop_construct_def step_def caller_step_def loop_step_def spawn_world_def
      split_beta EventLoop_begin_def act_def)

lemmas construct_unfold =
  EventLoop_construct_def EventLoop_begin_def step_def caller_step_def loop_step_def
  init_def createEventBase_def loopOnce_def run_func_def bootstrap_def run_def
  act_def Let_def tq_add_def tq_addWithPriority_def tq_accepts_def TaskQueue_new_def
  tq_setCloseEventLoopOnShutdown_def fresh_def

subsection \<open>What holds of every construction\<close>

text \<open>
  C1: the calls that \<open>init\<close> makes on the spawned thread are, in this order: the
  thread id is read and the thread identity is set; the EvBase is created; if that
  fails, the error is logged, \<open>init\<close> returns at once with NOMEM, SYSLIMIT or INTERNAL
  as the failure was, and no queue has been created; otherwise the task queue is
  created and set to close the event loop on shutdown, the one bootstrap closure is
  added to it, and \<open>loopOnce\<close> is called once, in which the closure, if served, sets
  \<open>thisThreadLoop\<close>, creates the event of the monitor and adds its timer. (The closure
  can be served only if the queue has taken it, which a queue of any capacity but zero
  does.) And under
  every schedule of the two threads, once the constructor has returned normally,
  \<open>thisThreadLoop\<close> of the spawned thread points to the object, and both the setting of
  it and the adding of the timer (the call of \<open>evtimer_add\<close>, whose result the code does
  not look at) are in the log before the constructor's wait returned. Whenever \<open>init\<close>
  succeeds, the schedule in which the spawned thread runs up to its post and the
  constructor follows ends with the constructor returning normally.
\<close>

theorem init_in_order_then_published:
  "performed s (snd (init e cap rpi s)) =
     map (Pair LoopThread)
       ([Syscall_gettid, ThreadID_set (thread_type s) (thread_name s), EvBase_init] @
        (case evbase_init e of
           EvBase_OK \<Rightarrow>
             [TaskQueue_create The_EvBase cap rpi, TaskQueue_setCloseEventLoopOnShutdown,
              TaskQueue_add Bootstrap, EvBase_loopOnce] @
             (if loop_once_drains e \<and> 0 < cap
              then [Set_thisThreadLoop, Event_create] @
                   (if event_created e then [Evtimer_add (CommonTimeout 1)] else [])
              else [])
         | EvBase_NO_MEM \<Rightarrow> [Ld_error ''Failed to create an event base for an EventLoop thread'']
         | EvBase_INVALID_PRIORITY \<Rightarrow> [Ld_error ''failed to initialize eventbase priorities'']
         | EvBase_OTHER \<Rightarrow> [Ld_error ''Internal error when initializing EvBase''])) \<and>
   (evbase_init e \<noteq> EvBase_OK \<longrightarrow>
      fst (init e cap rpi s) =
        (case evbase_init e of EvBase_NO_MEM \<Rightarrow> NOMEM | EvBase_INVALID_PRIORITY \<Rightarrow> SYSLIMIT
         | _ \<Rightarrow> INTERNAL) \<and>
      task_queue (snd (init e cap rpi s)) = task_queue s) \<and>
   (evbase_init e = EvBase_OK \<longrightarrow>
      map_option close_event_loop_on_shutdown (task_queue (snd (init e cap rpi s))) = Some True) \<and>
   (caller_at (EventLoop_construct e name type cap enable rpi w0 sched) = Constructed \<longrightarrow>
      thisThreadLoop (w (EventLoop_construct e name type cap enable rpi w0 sched)) LoopThread = Some This \<and>
      precedes (LoopThread, Set_thisThreadLoop) (Caller, Semaphore_wait)
        (trace (w (EventLoop_construct e name type cap enable rpi w0 sched))) \<and>
      precedes (LoopThread, Evtimer_add (CommonTimeout 1)) (Caller, Semaphore_wait)
        (trace (w (EventLoop_construct e name type cap enable rpi w0 sched)))) \<and>
   (fst (init e cap rpi (spawn_world name type enable w0)) = OK \<longrightarrow>
      caller_at (EventLoop_construct e name type cap enable rpi w0
        [Caller, LoopThread, LoopThread, Caller, Caller]) = Constructed)"
proof -
  let ?c = "EventLoop_construct e name type cap enable rpi w0 sched"
  let ?s = "spawn_world name type enable w0"
  let ?r = "fst (init e cap rpi ?s)"
  let ?wi = "snd (init e cap rpi ?s)"
  have order: "performed s (snd (init e cap rpi s)) =
      map (Pair LoopThread) (init_actions e cap rpi s)"
    by (simp add: performed_def init_trace)
  have stop: "evbase_init e \<noteq> EvBase_OK \<longrightarrow>
      fst (init e cap rpi s) =
        (case evbase_init e of EvBase_NO_MEM \<Rightarrow> NOMEM | EvBase_INVALID_PRIORITY \<Rightarrow> SYSLIMIT
         | _ \<Rightarrow> INTERNAL) \<and>
      task_queue (snd (init e cap rpi s)) = task_queue s"
    by (cases "evbase_init e") (simp_all add: init_no_base creation_status_def)
  have conf: "evbase_init e = EvBase_OK \<longrightarrow>
      map_option close_event_loop_on_shutdown (task_queue (snd (init e cap rpi s))) = Some True"
    by (cases "loop_once_drains e \<and> 0 < cap") (auto simp: init_not_drained init_drained)
  have pub: "thisThreadLoop (w ?c) LoopThread = Some This \<and>
      precedes (LoopThread, Set_thisThreadLoop) sem_wait (trace (w ?c)) \<and>
      precedes (LoopThread, Evtimer_add (CommonTimeout 1)) sem_wait (trace (w ?c))"
    if built: "caller_at ?c = Constructed"
  proof (cases rule: construction_cases [of e name type cap enable rpi w0 sched])
    case early
    then show ?thesis using built by simp
  next
    case late
    then have i: "inv_data ?r ?wi ?c" "inv_caller ?r ?c"
      by (simp_all add: post_inv_def)
    have ok: "?r = OK" and wt: "sem_wait \<in> set (trace (w ?c))"
      using i(2) built by (simp_all add: inv_caller_def)
    have n: "scheduled_event ?s = None"
      by (simp add: spawn_world_facts)
    have "thisThreadLoop (w ?c) LoopThread = Some This"
      using i(1) init_OK(1) [OF n ok] by (simp add: inv_data_def)
    moreover have "precedes (LoopThread, Set_thisThreadLoop) sem_wait (trace (w ?c))"
      using init_OK(5) [OF n ok] by (intro before_wait [OF late _ wt]) (simp add: init_trace)
    moreover have "precedes (LoopThread, Evtimer_add (CommonTimeout 1)) sem_wait (trace (w ?c))"
      using init_OK(6) [OF n ok] by (intro before_wait [OF late _ wt]) (simp add: init_trace)
    ultimately show ?thesis by simp
  qed
  show ?thesis
    using order stop conf pub succeeding_schedule [of e cap rpi name type enable w0]
    by (simp add: init_actions_def)
qed

text \<open>A construction in which everything succeeds: the state and the log when the
  constructor has returned. And a call of \<open>init\<close> in which \<open>EvBase::init\<close> reports
  INVALID_PRIORITY.\<close>

theorem init_in_order_then_published_witness:
  "caller_at
     (EventLoop_construct
        \<lparr>gettid = 4711, evbase_init = EvBase_OK, loop_once_drains = True,
         event_created = True, loop_exit = None\<rparr>
        ''ld:w0'' 2 16 True [8, 4, 2] fresh
        [Caller, LoopThread, LoopThread, Caller, Caller]) = Constructed \<and>
   trace (w
     (EventLoop_construct
        \<lparr>gettid = 4711, evbase_init = EvBase_OK, loop_once_drains = True,
         event_created = True, loop_exit = None\<rparr>
        ''ld:w0'' 2 16 True [8, 4, 2] fresh
        [Caller, LoopThread, LoopThread, Caller, Caller])) =
     [(Caller, Thread_spawn), (LoopThread, Syscall_gettid),
      (LoopThread, ThreadID_set 2 ''ld:w0''), (LoopThread, EvBase_init),
      (LoopThread, TaskQueue_create The_EvBase 16 [8, 4, 2]),
      (LoopThread, TaskQueue_setCloseEventLoopOnShutdown),
      (LoopThread, TaskQueue_add Bootstrap), (LoopThread, EvBase_loopOnce),
      (LoopThread, Set_thisThreadLoop), (LoopThread, Event_create),
      (LoopThread, Evtimer_add (CommonTimeout 1)), (LoopThread, Semaphore_post),
      (Caller, Semaphore_wait)] \<and>
   thisThreadLoop (w
     (EventLoop_construct
        \<lparr>gettid = 4711, evbase_init = EvBase_OK, loop_once_drains = True,
         event_created = True, loop_exit = None\<rparr>
        ''ld:w0'' 2 16 True [8, 4, 2] fresh
        [Caller, LoopThread, LoopThread, Caller, Caller])) LoopThread = Some This \<and>
   precedes (LoopThread, Evtimer_add (CommonTimeout 1)) (Caller, Semaphore_wait)
     (trace (w
       (EventLoop_construct
          \<lparr>gettid = 4711, evbase_init = EvBase_OK, loop_once_drains = True,
           event_created = True, loop_exit = None\<rparr>
          ''ld:w0'' 2 16 True [8, 4, 2] fresh
          [Caller, LoopThread, LoopThread, Caller, Caller]))) \<and>
   init \<lparr>gettid = 4711, evbase_init = EvBase_INVALID_PRIORITY, loop_once_drains = True,
         event_created = True, loop_exit = None\<rparr> 16 [8, 4, 2] fresh =
     (SYSLIMIT,
      fresh\<lparr>tid := 4711, err := (\<lambda>t. OK)(LoopThread := SYSLIMIT),
             trace := [(LoopThread, Syscall_gettid), (LoopThread, ThreadID_set 0 []),
                       (LoopThread, EvBase_init),
                       (LoopThread, Ld_error ''failed to initialize eventbase priorities'')]\<rparr>)"
proof -
  let ?f = "\<lparr>gettid = 4711, evbase_init = EvBase_INVALID_PRIORITY, loop_once_drains = True,
         event_created = True, loop_exit = None\<rparr>"
  have stop: "init ?f 16 [8, 4, 2] fresh =
     (SYSLIMIT,
      fresh\<lparr>tid := 4711, err := (\<lambda>t. OK)(LoopThread := SYSLIMIT),
             trace := [(LoopThread, Syscall_gettid), (LoopThread, ThreadID_set 0 []),
                       (LoopThread, EvBase_init),
                       (LoopThread, Ld_error ''failed to initialize eventbase priorities'')]\<rparr>)"
    by (simp add: init_def createEventBase_def act_def Let_def fresh_def)
  let ?e = "\<lparr>gettid = 4711, evbase_init = EvBase_OK, loop_once_drains = True,
         event_created = True, loop_exit = None\<rparr>"
  let ?c = "EventLoop_construct ?e ''ld:w0'' 2 16 True [8, 4, 2] fresh
        [Caller, LoopThread, LoopThread, Caller, Caller]"
  have built: "caller_at ?c = Constructed"
    by (simp add: construct_unfold)
  have tr: "trace (w ?c) =
     [(Caller, Thread_spawn), (LoopThread, Syscall_gettid),
      (LoopThread, ThreadID_set 2 ''ld:w0''), (LoopThread, EvBase_init),
      (LoopThread, TaskQueue_create The_EvBase 16 [8, 4, 2]),
      (LoopThread, TaskQueue_setCloseEventLoopOnShutdown),
      (LoopThread, TaskQueue_add Bootstrap), (LoopThread, EvBase_loopOnce),
      (LoopThread, Set_thisThreadLoop), (LoopThread, Event_create),
      (LoopThread, Evtimer_add (CommonTimeout 1)), (LoopThread, Semaphore_post),
      (Caller, Semaphore_wait)]"
    by (simp add: construct_unfold)
  show ?thesis
    using built tr stop
      init_in_order_then_published
        [where e = ?e and name = "''ld:w0''" and type = 2 and cap = 16 and enable = True
          and rpi = "[8, 4, 2]" and ?w0.0 = fresh
          and sched = "[Caller, LoopThread, LoopThread, Caller, Caller]" and s = fresh]
      init_in_order_then_published
        [where e = ?f and cap = 16 and rpi = "[8, 4, 2]" and s = fresh]
    by simp
qed

text \<open>
  C2: under every schedule of the two threads: the constructor's wait on the semaphore
  returns only after the spawned thread has posted it, and \<open>init_result\<close> then holds
  the status that \<open>init\<close> returned. That status is NOMEM when \<open>EvBase::init\<close> reports
  NO_MEM, SYSLIMIT when it reports INVALID_PRIORITY, INTERNAL when it reports anything
  else but OK, INTERNAL again when the base was created but the closure was not served
  (the pass did not serve the queue, or the queue, being of capacity zero, had refused
  the closure) or its event did not come into being, and OK otherwise: once the base is
  created, the status is OK exactly when the timer of the monitor was added.
  A constructor that has thrown has found a status other than OK, has copied it to
  \<open>err\<close>, and has joined the thread, after the thread's exit and before the throw; a
  constructor that has returned normally has found OK. Whenever \<open>init\<close> fails, the
  schedule in which the spawned thread runs to its end and the constructor follows ends
  with the throw.
\<close>

theorem construction_failure_reported:
  "((Caller, Semaphore_wait) \<in> set (trace (w (EventLoop_construct e name type cap enable rpi w0 sched))) \<longrightarrow>
      precedes (LoopThread, Semaphore_post) (Caller, Semaphore_wait)
        (trace (w (EventLoop_construct e name type cap enable rpi w0 sched))) \<and>
      init_result (EventLoop_construct e name type cap enable rpi w0 sched) =
        fst (init e cap rpi (spawn_world name type enable w0))) \<and>
   (caller_at (EventLoop_construct e name type cap enable rpi w0 sched) = Constructor_failed \<longrightarrow>
      fst (init e cap rpi (spawn_world name type enable w0)) \<noteq> OK \<and>
      err (w (EventLoop_construct e name type cap enable rpi w0 sched)) Caller =
        fst (init e cap rpi (spawn_world name type enable w0)) \<and>
      \<not> thread_joinable (w (EventLoop_construct e name type cap enable rpi w0 sched)) \<and>
      precedes (LoopThread, Thread_exit) (Caller, Thread_join)
        (trace (w (EventLoop_construct e name type cap enable rpi w0 sched))) \<and>
      precedes (Caller, Thread_join) (Caller, Throw_ConstructorFailed)
        (trace (w (EventLoop_construct e name type cap enable rpi w0 sched)))) \<and>
   (caller_at (EventLoop_construct e name type cap enable rpi w0 sched) = Constructed \<longrightarrow>
      fst (init e cap rpi (spawn_world name type enable w0)) = OK) \<and>
   fst (init e cap rpi (spawn_world name type enable w0)) =
     (case evbase_init e of
        EvBase_OK \<Rightarrow>
          if loop_once_drains e \<and> event_created e \<and> 0 < cap then OK else INTERNAL
      | EvBase_NO_MEM \<Rightarrow> NOMEM
      | EvBase_INVALID_PRIORITY \<Rightarrow> SYSLIMIT
      | EvBase_OTHER \<Rightarrow> INTERNAL) \<and>
   (evbase_init e = EvBase_OK \<longrightarrow>
      (fst (init e cap rpi (spawn_world name type enable w0)) = OK) =
      ((LoopThread, Evtimer_add (CommonTimeout 1)) \<in>
         set (performed (spawn_world name type enable w0)
                (snd (init e cap rpi (spawn_world name type enable w0)))))) \<and>
   (fst (init e cap rpi (spawn_world name type enable w0)) \<noteq> OK \<longrightarrow>
      caller_at (EventLoop_construct e name type cap enable rpi w0
        [Caller, LoopThread, LoopThread, LoopThread, Caller, Caller, Caller, Caller]) =
      Constructor_failed)"
proof -
  let ?c = "EventLoop_construct e name type cap enable rpi w0 sched"
  let ?r = "fst (init e cap rpi (spawn_world name type enable w0))"
  let ?wi = "snd (init e cap rpi (spawn_world name type enable w0))"
  have status: "?r =
     (case evbase_init e of
        EvBase_OK \<Rightarrow>
          if loop_once_drains e \<and> event_created e \<and> 0 < cap then OK else INTERNAL
      | EvBase_NO_MEM \<Rightarrow> NOMEM
      | EvBase_INVALID_PRIORITY \<Rightarrow> SYSLIMIT
      | EvBase_OTHER \<Rightarrow> INTERNAL)"
    by (rule init_status) (simp add: spawn_world_facts)
  have rest: "(sem_wait \<in> set (trace (w ?c)) \<longrightarrow> precedes sem_post sem_wait (trace (w ?c)) \<and> init_result ?c = ?r) \<and>
    (caller_at ?c = Constructor_failed \<longrightarrow>
      ?r \<noteq> OK \<and> err (w ?c) Caller = ?r \<and> \<not> thread_joinable (w ?c) \<and>
      precedes thread_exit thread_join (trace (w ?c)) \<and> precedes thread_join ctor_throw (trace (w ?c))) \<and>
    (caller_at ?c = Constructed \<longrightarrow> ?r = OK)"
  proof (cases rule: construction_cases [of e name type cap enable rpi w0 sched])
    case early
    show ?thesis
      using early not_in_init_trace [of e cap rpi name type enable w0] by auto
  next
    case late
    then have i: "inv_data ?r ?wi ?c" "inv_caller ?r ?c"
      by (simp_all add: post_inv_def)
    have "precedes sem_post sem_wait (trace (w ?c))" if "sem_wait \<in> set (trace (w ?c))"
    proof -
      have s: "trace (w ?c) = (trace ?wi @ [sem_post]) @ drop (length (trace ?wi @ [sem_post])) (trace (w ?c))"
        using i(1) by (intro starts_with_split) (simp add: inv_data_def)
      have "sem_wait \<in> set (drop (length (trace ?wi @ [sem_post])) (trace (w ?c)))"
        using that not_in_init_trace(2) [of e cap rpi name type enable w0]
        by (subst (asm) s) simp
      then have "precedes sem_post sem_wait
          ((trace ?wi @ [sem_post]) @ drop (length (trace ?wi @ [sem_post])) (trace (w ?c)))"
        using not_in_init_trace(2) [of e cap rpi name type enable w0]
        by (intro precedes_in_prefix) simp_all
      then show ?thesis
        using s by simp
    qed
    then show ?thesis
      using i by (auto simp: inv_data_def inv_caller_def)
  qed
  have armed: "evbase_init e = EvBase_OK \<longrightarrow>
      (?r = OK) =
      ((LoopThread, Evtimer_add (CommonTimeout 1)) \<in>
         set (performed (spawn_world name type enable w0) ?wi))"
    using init_timer_added [of e "spawn_world name type enable w0" cap rpi]
    by (simp add: status)
  show ?thesis
    using status rest armed failing_schedule [of e cap rpi name type enable w0] by blast
qed

text \<open>A construction in which \<open>EvBase::init\<close> reports NO_MEM.\<close>

theorem construction_failure_reported_witness:
  "caller_at
     (EventLoop_construct
        \<lparr>gettid = 4711, evbase_init = EvBase_NO_MEM, loop_once_drains = True,
         event_created = True, loop_exit = None\<rparr>
        ''ld:w0'' 2 16 True [8, 4, 2] fresh
        [Caller, LoopThread, LoopThread, LoopThread, Caller, Caller, Caller, Caller]) =
     Constructor_failed \<and>
   err (w
     (EventLoop_construct
        \<lparr>gettid = 4711, evbase_init = EvBase_NO_MEM, loop_once_drains = True,
         event_created = True, loop_exit = None\<rparr>
        ''ld:w0'' 2 16 True [8, 4, 2] fresh
        [Caller, LoopThread, LoopThread, LoopThread, Caller, Caller, Caller, Caller])) Caller =
     NOMEM \<and>
   trace (w
     (EventLoop_construct
        \<lparr>gettid = 4711, evbase_init = EvBase_NO_MEM, loop_once_drains = True,
         event_created = True, loop_exit = None\<rparr>
        ''ld:w0'' 2 16 True [8, 4, 2] fresh
        [Caller, LoopThread, LoopThread, LoopThread, Caller, Caller, Caller, Caller])) =
     [(Caller, Thread_spawn), (LoopThread, Syscall_gettid),
      (LoopThread, ThreadID_set 2 ''ld:w0''), (LoopThread, EvBase_init),
      (LoopThread, Ld_error ''Failed to create an event base for an EventLoop thread''),
      (LoopThread, Semaphore_post), (LoopThread, Thread_exit), (Caller, Semaphore_wait),
      (Caller, Thread_join), (Caller, Throw_ConstructorFailed)] \<and>
   precedes (Caller, Thread_join) (Caller, Throw_ConstructorFailed)
     (trace (w
       (EventLoop_construct
          \<lparr>gettid = 4711, evbase_init = EvBase_NO_MEM, loop_once_drains = True,
           event_created = True, loop_exit = None\<rparr>
          ''ld:w0'' 2 16 True [8, 4, 2] fresh
          [Caller, LoopThread, LoopThread, LoopThread, Caller, Caller, Caller, Caller])))"
proof -
  let ?e = "\<lparr>gettid = 4711, evbase_init = EvBase_NO_MEM, loop_once_drains = True,
         event_created = True, loop_exit = None\<rparr>"
  let ?c = "EventLoop_construct ?e ''ld:w0'' 2 16 True [8, 4, 2] fresh
        [Caller, LoopThread, LoopThread, LoopThread, Caller, Caller, Caller, Caller]"
  have failed: "caller_at ?c = Constructor_failed"
    by (simp add: construct_unfold)
  have reason: "err (w ?c) Caller = NOMEM"
    by (simp add: construct_unfold)
  have tr: "trace (w ?c) =
     [(Caller, Thread_spawn), (LoopThread, Syscall_gettid),
      (LoopThread, ThreadID_set 2 ''ld:w0''), (LoopThread, EvBase_init),
      (LoopThread, Ld_error ''Failed to create an event base for an EventLoop thread''),
      (LoopThread, Semaphore_post), (LoopThread, Thread_exit), (Caller, Semaphore_wait),
      (Caller, Thread_join), (Caller, Throw_ConstructorFailed)]"
    by (simp add: construct_unfold)
  show ?thesis
    using failed reason tr
      construction_failure_reported
        [where e = ?e and name = "''ld:w0''" and type = 2 and cap = 16 and enable = True
          and rpi = "[8, 4, 2]" and ?w0.0 = fresh
          and sched = "[Caller, LoopThread, LoopThread, LoopThread, Caller, Caller, Caller,
            Caller]"]
    by simp
qed

text \<open>
  C10: under every schedule of the two threads, the log holds no post of the semaphore
  until the closure has returned from \<open>init\<close> and taken its next step, and exactly one
  from then on. When the post is in the log, it comes right after everything \<open>init\<close>
  has logged, and both \<open>res\<close> of the closure and \<open>init_result\<close> of the constructor hold
  the status \<open>init\<close> returned. \<open>EvBase::loop\<close> is called, and the closure is in or about
  to enter \<open>run\<close>, only if that status is OK. And the post is made, whatever the status
  is: the log holds it as soon as the schedule has given the spawned thread two steps,
  and not before. With a third step a closure whose \<open>init\<close> has failed has returned
  without a call of \<open>EvBase::loop\<close>; with a fourth, a closure whose \<open>init\<close> has succeeded
  has called it.
\<close>

theorem closure_posts_once_then_runs:
  "count_list (trace (w (EventLoop_construct e name type cap enable rpi w0 sched))) (LoopThread, Semaphore_post) =
     (if loop_at (EventLoop_construct e name type cap enable rpi w0 sched) \<in> {Not_started, Before_init, Before_post}
      then 0 else 1) \<and>
   ((LoopThread, Semaphore_post) \<in> set (trace (w (EventLoop_construct e name type cap enable rpi w0 sched))) \<longrightarrow>
      res (EventLoop_construct e name type cap enable rpi w0 sched) =
        Some (fst (init e cap rpi (spawn_world name type enable w0))) \<and>
      init_result (EventLoop_construct e name type cap enable rpi w0 sched) =
        fst (init e cap rpi (spawn_world name type enable w0)) \<and>
      starts_with (trace (snd (init e cap rpi (spawn_world name type enable w0))) @ [(LoopThread, Semaphore_post)])
        (trace (w (EventLoop_construct e name type cap enable rpi w0 sched)))) \<and>
   ((LoopThread, EvBase_loop) \<in> set (trace (w (EventLoop_construct e name type cap enable rpi w0 sched))) \<longrightarrow>
      fst (init e cap rpi (spawn_world name type enable w0)) = OK) \<and>
   (loop_at (EventLoop_construct e name type cap enable rpi w0 sched) \<in> {Before_run, In_loop} \<longrightarrow>
      fst (init e cap rpi (spawn_world name type enable w0)) = OK) \<and>
   count_list (trace (w (EventLoop_construct e name type cap enable rpi w0 sched))) (LoopThread, Semaphore_post) =
     (if 2 \<le> thread_steps sched then 1 else 0) \<and>
   (fst (init e cap rpi (spawn_world name type enable w0)) \<noteq> OK \<and> 3 \<le> thread_steps sched \<longrightarrow>
      loop_at (EventLoop_construct e name type cap enable rpi w0 sched) = Exited \<and>
      (LoopThread, EvBase_loop) \<notin> set (trace (w (EventLoop_construct e name type cap enable rpi w0 sched)))) \<and>
   (fst (init e cap rpi (spawn_world name type enable w0)) = OK \<and> 4 \<le> thread_steps sched \<longrightarrow>
      (LoopThread, EvBase_loop) \<in> set (trace (w (EventLoop_construct e name type cap enable rpi w0 sched))))"
proof -
  let ?c = "EventLoop_construct e name type cap enable rpi w0 sched"
  let ?r = "fst (init e cap rpi (spawn_world name type enable w0))"
  let ?wi = "snd (init e cap rpi (spawn_world name type enable w0))"
  have safe: "count_list (trace (w ?c)) sem_post =
      (if loop_at ?c \<in> {Not_started, Before_init, Before_post} then 0 else 1) \<and>
    (sem_post \<in> set (trace (w ?c)) \<longrightarrow>
       res ?c = Some ?r \<and> init_result ?c = ?r \<and>
       starts_with (trace ?wi @ [sem_post]) (trace (w ?c))) \<and>
    (loop_call \<in> set (trace (w ?c)) \<longrightarrow> ?r = OK) \<and>
    (loop_at ?c \<in> {Before_run, In_loop} \<longrightarrow> ?r = OK)"
  proof (cases rule: construction_cases [of e name type cap enable rpi w0 sched])
    case early
    show ?thesis
      using early not_in_init_trace [of e cap rpi name type enable w0] by auto
  next
    case late
    then show ?thesis
      by (auto simp: post_inv_def inv_data_def inv_loop_def)
  qed
  have called: "(loop_call \<in> set (trace (w ?c))) =
      (loop_at ?c = In_loop \<or> loop_at ?c = Exited \<and> ?r = OK)"
    if "loop_at ?c \<noteq> Not_started" "loop_at ?c \<noteq> Before_init" "loop_at ?c \<noteq> Before_post"
  proof (cases rule: construction_cases [of e name type cap enable rpi w0 sched])
    case early
    then show ?thesis using that by simp
  next
    case late
    then show ?thesis
      by (simp add: post_inv_def inv_loop_def)
  qed
  have posted: "count_list (trace (w ?c)) sem_post = (if 2 \<le> thread_steps sched then 1 else 0)"
  proof (cases "2 \<le> thread_steps sched")
    case True
    then have "Caller \<in> set sched"
      by (intro thread_steps_pos) simp
    then have "loop_at ?c \<notin> {Not_started, Before_init, Before_post}"
      using True by (simp add: loop_at_construct loop_pc_after_def split: option.split)
    then show ?thesis
      using safe True by simp
  next
    case False
    then have "thread_steps sched = 0 \<or> thread_steps sched = 1"
      by arith
    then have "loop_at ?c \<in> {Not_started, Before_init, Before_post}"
      by (auto simp: loop_at_construct loop_pc_after_def)
    then show ?thesis
      using safe False by simp
  qed
  note only_OK = conjunct1 [OF conjunct2 [OF conjunct2 [OF safe]]]
  have failed: "?r \<noteq> OK \<and> 3 \<le> thread_steps sched \<longrightarrow>
      loop_at ?c = Exited \<and> loop_call \<notin> set (trace (w ?c))"
  proof (intro impI, elim conjE)
    assume bad: "?r \<noteq> OK" and n: "3 \<le> thread_steps sched"
    have "Caller \<in> set sched"
      using n by (intro thread_steps_pos) simp
    then have "loop_at ?c = Exited"
      using bad n by (simp add: loop_at_construct loop_pc_after_def)
    moreover have "loop_call \<notin> set (trace (w ?c))"
      using only_OK bad by simp
    ultimately show "loop_at ?c = Exited \<and> loop_call \<notin> set (trace (w ?c))"
      by simp
  qed
  have runs: "?r = OK \<and> 4 \<le> thread_steps sched \<longrightarrow> loop_call \<in> set (trace (w ?c))"
  proof (intro impI, elim conjE)
    assume ok: "?r = OK" and n: "4 \<le> thread_steps sched"
    have "Caller \<in> set sched"
      using n by (intro thread_steps_pos) simp
    then have at: "loop_at ?c = In_loop \<or> loop_at ?c = Exited"
      using ok n by (simp add: loop_at_construct loop_pc_after_def split: option.split)
    then have "(loop_call \<in> set (trace (w ?c))) =
        (loop_at ?c = In_loop \<or> loop_at ?c = Exited \<and> ?r = OK)"
      by (intro called) auto
    then show "loop_call \<in> set (trace (w ?c))"
      using at ok by simp
  qed
  show ?thesis
    using conjunct1 [OF safe] conjunct1 [OF conjunct2 [OF safe]] only_OK
      conjunct2 [OF conjunct2 [OF conjunct2 [OF safe]]] posted failed runs
    by (intro conjI)
qed

text \<open>A construction in which everything succeeds and \<open>EvBase::loop\<close> does not return:
  the spawned thread has posted once and is in the loop. And one in which
  \<open>EvBase::init\<close> reports NO_MEM: the spawned thread has posted once all the same, and
  has returned without a call of \<open>EvBase::loop\<close>.\<close>

theorem closure_posts_once_then_runs_witness:
  "loop_at
     (EventLoop_construct
        \<lparr>gettid = 4711, evbase_init = EvBase_OK, loop_once_drains = True,
         event_created = True, loop_exit = None\<rparr>
        ''ld:w0'' 2 16 True [8, 4, 2] fresh
        [Caller, LoopThread, LoopThread, LoopThread, LoopThread, Caller, Caller]) = In_loop \<and>
   count_list
     (trace (w
       (EventLoop_construct
          \<lparr>gettid = 4711, evbase_init = EvBase_OK, loop_once_drains = True,
           event_created = True, loop_exit = None\<rparr>
          ''ld:w0'' 2 16 True [8, 4, 2] fresh
          [Caller, LoopThread, LoopThread, LoopThread, LoopThread, Caller, Caller])))
     (LoopThread, Semaphore_post) = 1 \<and>
   (LoopThread, EvBase_loop) \<in> set
     (trace (w
       (EventLoop_construct
          \<lparr>gettid = 4711, evbase_init = EvBase_OK, loop_once_drains = True,
           event_created = True, loop_exit = None\<rparr>
          ''ld:w0'' 2 16 True [8, 4, 2] fresh
          [Caller, LoopThread, LoopThread, LoopThread, LoopThread, Caller, Caller]))) \<and>
   fst (init
          \<lparr>gettid = 4711, evbase_init = EvBase_OK, loop_once_drains = True,
           event_created = True, loop_exit = None\<rparr>
          16 [8, 4, 2] (spawn_world ''ld:w0'' 2 True fresh)) = OK \<and>
   fst (init
          \<lparr>gettid = 4711, evbase_init = EvBase_NO_MEM, loop_once_drains = True,
           event_created = True, loop_exit = None\<rparr>
          16 [8, 4, 2] (spawn_world ''ld:w0'' 2 True fresh)) \<noteq> OK \<and>
   3 \<le> thread_steps [Caller, LoopThread, LoopThread, LoopThread] \<and>
   count_list
     (trace (w
       (EventLoop_construct
          \<lparr>gettid = 4711, evbase_init = EvBase_NO_MEM, loop_once_drains = True,
           event_created = True, loop_exit = None\<rparr>
          ''ld:w0'' 2 16 True [8, 4, 2] fresh
          [Caller, LoopThread, LoopThread, LoopThread])))
     (LoopThread, Semaphore_post) = 1 \<and>
   loop_at
     (EventLoop_construct
        \<lparr>gettid = 4711, evbase_init = EvBase_NO_MEM, loop_once_drains = True,
         event_created = True, loop_exit = None\<rparr>
        ''ld:w0'' 2 16 True [8, 4, 2] fresh
        [Caller, LoopThread, LoopThread, LoopThread]) = Exited \<and>
   (LoopThread, EvBase_loop) \<notin> set
     (trace (w
       (EventLoop_construct
          \<lparr>gettid = 4711, evbase_init = EvBase_NO_MEM, loop_once_drains = True,
           event_created = True, loop_exit = None\<rparr>
          ''ld:w0'' 2 16 True [8, 4, 2] fresh
          [Caller, LoopThread, LoopThread, LoopThread])))"
proof -
  let ?f = "\<lparr>gettid = 4711, evbase_init = EvBase_NO_MEM, loop_once_drains = True,
         event_created = True, loop_exit = None\<rparr>"
  have bad: "fst (init ?f 16 [8, 4, 2] (spawn_world ''ld:w0'' 2 True fresh)) \<noteq> OK"
    by (simp add: init_def createEventBase_def act_def Let_def spawn_world_def
        caller_step_def EventLoop_begin_def)
  have three: "3 \<le> thread_steps [Caller, LoopThread, LoopThread, LoopThread]"
    by (simp add: thread_steps_def)
  let ?d = "EventLoop_construct ?f ''ld:w0'' 2 16 True [8, 4, 2] fresh
        [Caller, LoopThread, LoopThread, LoopThread]"
  let ?e = "\<lparr>gettid = 4711, evbase_init = EvBase_OK, loop_once_drains = True,
         event_created = True, loop_exit = None\<rparr>"
  let ?c = "EventLoop_construct ?e ''ld:w0'' 2 16 True [8, 4, 2] fresh
        [Caller, LoopThread, LoopThread, LoopThread, LoopThread, Caller, Caller]"
  have at: "loop_at ?c = In_loop"
    by (simp add: construct_unfold)
  have tr: "trace (w ?c) =
     [(Caller, Thread_spawn), (LoopThread, Syscall_gettid),
      (LoopThread, ThreadID_set 2 ''ld:w0''), (LoopThread, EvBase_init),
      (LoopThread, TaskQueue_create The_EvBase 16 [8, 4, 2]),
      (LoopThread, TaskQueue_setCloseEventLoopOnShutdown),
      (LoopThread, TaskQueue_add Bootstrap), (LoopThread, EvBase_loopOnce),
      (LoopThread, Set_thisThreadLoop), (LoopThread, Event_create),
      (LoopThread, Evtimer_add (CommonTimeout 1)), (LoopThread, Semaphore_post),
      (LoopThread, EvBase_loop), (Caller, Semaphore_wait)]"
    by (simp add: construct_unfold)
  note succeeds =
      closure_posts_once_then_runs
        [where e = ?e and name = "''ld:w0''" and type = 2 and cap = 16 and enable = True
          and rpi = "[8, 4, 2]" and ?w0.0 = fresh
          and sched = "[Caller, LoopThread, LoopThread, LoopThread, LoopThread, Caller,
            Caller]"]
  note fails =
      closure_posts_once_then_runs
        [where e = ?f and name = "''ld:w0''" and type = 2 and cap = 16 and enable = True
          and rpi = "[8, 4, 2]" and ?w0.0 = fresh
          and sched = "[Caller, LoopThread, LoopThread, LoopThread]"]
  have once: "count_list (trace (w ?c)) sem_post = 1"
    using succeeds [THEN conjunct1] at by simp
  have called: "loop_call \<in> set (trace (w ?c))"
    using tr by simp
  have good: "fst (init ?e 16 [8, 4, 2] (spawn_world ''ld:w0'' 2 True fresh)) = OK"
    using succeeds [THEN conjunct2, THEN conjunct2, THEN conjunct1] called by simp
  have once_too: "count_list (trace (w ?d)) sem_post = 1"
    using fails [THEN conjunct2, THEN conjunct2, THEN conjunct2, THEN conjunct2,
        THEN conjunct1] three
    by simp
  have ended: "loop_at ?d = Exited \<and> loop_call \<notin> set (trace (w ?d))"
    using fails [THEN conjunct2, THEN conjunct2, THEN conjunct2, THEN conjunct2,
        THEN conjunct2, THEN conjunct1] bad three
    by simp
  show ?thesis
    using at once called good bad three once_too ended [THEN conjunct1]
      ended [THEN conjunct2]
    by (intro conjI)
qed

end
